theory Spec2Isabelle
  imports Main "HOL-Library.Word"
begin

unbundle bit_operations_syntax

section \<open>Data model\<close>

text \<open>
  A Python \<open>bytes\<close> object is a list of 8-bit words.  A Python \<open>str\<close> is a
  sequence of Unicode code points (\<open>len\<close> counts code points, not bytes), so it is a
  list of naturals; every code point of a \<open>str\<close> is below \<open>0x110000\<close>.  Python
  integers are unbounded and are modelled by \<open>int\<close>.
\<close>

type_synonym byte = "8 word"
type_synonym bytes = "byte list"
type_synonym pystr = "nat list"

text \<open>The exceptions the encoder can raise.\<close>

datatype error = ValueError | StructError | UnicodeEncodeError | KeyError

text \<open>
  \<open>isinstance(e, ValueError)\<close>.  \<open>UnicodeEncodeError\<close> is a subclass of \<open>ValueError\<close>
  (through \<open>UnicodeError\<close>); \<open>struct.error\<close> derives from \<open>Exception\<close> and \<open>KeyError\<close>
  from \<open>LookupError\<close>, so neither is a \<open>ValueError\<close>.
\<close>

fun isinstance_ValueError :: "error \<Rightarrow> bool" where
  "isinstance_ValueError ValueError = True"
| "isinstance_ValueError UnicodeEncodeError = True"
| "isinstance_ValueError StructError = False"
| "isinstance_ValueError KeyError = False"

text \<open>Sequencing of fallible steps: the first exception raised is the result.\<close>

definition and_then :: "error + 'a \<Rightarrow> ('a \<Rightarrow> error + 'b) \<Rightarrow> error + 'b" where
  "and_then x f = (case x of Inl e \<Rightarrow> Inl e | Inr a \<Rightarrow> f a)"

text \<open>An ASCII literal of the source as a \<open>str\<close>.\<close>

definition lit :: "string \<Rightarrow> pystr" where
  "lit s = map of_char s"

subsection \<open>Python built-ins used by the encoder\<close>

text \<open>\<open>bytes([v0, v1, ...])\<close>: raises \<open>ValueError\<close> unless every value is in \<open>range(256)\<close>.\<close>

definition py_bytes :: "int list \<Rightarrow> error + bytes" where
  "py_bytes vs =
     (if list_all (\<lambda>v. 0 \<le> v \<and> v < 256) vs then Inr (map word_of_int vs)
      else Inl ValueError)"

text \<open>Little-endian digits of a non-negative integer, \<open>n\<close> bytes of them.\<close>

fun le_bytes :: "nat \<Rightarrow> int \<Rightarrow> bytes" where
  "le_bytes 0 v = []"
| "le_bytes (Suc n) v = word_of_int (v mod 256) # le_bytes n (v div 256)"

text \<open>
  \<open>struct.pack("<...", v0, v1, ...)\<close> for the format characters the source uses:
  \<open>B\<close> (1 byte), \<open>H\<close> (2 bytes) and \<open>I\<close> (4 bytes), unsigned, little-endian, without
  alignment.  A value outside the range of its format, or a number of values different
  from the number of format characters, raises \<open>struct.error\<close>.
\<close>

datatype fmt = Fmt_B | Fmt_H | Fmt_I

fun fmt_size :: "fmt \<Rightarrow> nat" where
  "fmt_size Fmt_B = 1"
| "fmt_size Fmt_H = 2"
| "fmt_size Fmt_I = 4"

fun struct_pack :: "fmt list \<Rightarrow> int list \<Rightarrow> error + bytes" where
  "struct_pack [] [] = Inr []"
| "struct_pack (f # fs) (v # vs) =
     (if 0 \<le> v \<and> v < 2 ^ (8 * fmt_size f)
      then and_then (struct_pack fs vs) (\<lambda>bs. Inr (le_bytes (fmt_size f) v @ bs))
      else Inl StructError)"
| "struct_pack _ _ = Inl StructError"

text \<open>
  \<open>text.encode("utf-8")\<close>.  A code point in the surrogate range \<open>0xD800..0xDFFF\<close> has no
  UTF-8 encoding and raises \<open>UnicodeEncodeError\<close>; every other code point gives one to
  four bytes.
\<close>

definition utf8_char :: "nat \<Rightarrow> error + bytes" where
  "utf8_char c =
     (if c < 0x80 then Inr [of_nat c]
      else if c < 0x800 then Inr [of_nat (0xC0 + c div 0x40), of_nat (0x80 + c mod 0x40)]
      else if 0xD800 \<le> c \<and> c \<le> 0xDFFF then Inl UnicodeEncodeError
      else if c < 0x10000 then
        Inr [of_nat (0xE0 + c div 0x1000), of_nat (0x80 + c div 0x40 mod 0x40),
             of_nat (0x80 + c mod 0x40)]
      else
        Inr [of_nat (0xF0 + c div 0x40000), of_nat (0x80 + c div 0x1000 mod 0x40),
             of_nat (0x80 + c div 0x40 mod 0x40), of_nat (0x80 + c mod 0x40)])"

fun str_encode_utf8 :: "pystr \<Rightarrow> error + bytes" where
  "str_encode_utf8 [] = Inr []"
| "str_encode_utf8 (c # cs) =
     and_then (utf8_char c) (\<lambda>b.
     and_then (str_encode_utf8 cs) (\<lambda>bs. Inr (b @ bs)))"

text \<open>\<open>d[k]\<close> on a dictionary: \<open>KeyError\<close> when the key is absent.\<close>

definition getitem :: "(pystr \<rightharpoonup> int) \<Rightarrow> pystr \<Rightarrow> error + int" where
  "getitem d k = (case d k of None \<Rightarrow> Inl KeyError | Some v \<Rightarrow> Inr v)"

text \<open>
  \<open>{text: index for index, text in enumerate(strings)}\<close>: the pairs are inserted in
  order, a later pair replacing an earlier one with the same key.
\<close>

fun dict_of_enumerate :: "pystr list \<Rightarrow> int \<Rightarrow> (pystr \<rightharpoonup> int) \<Rightarrow> (pystr \<rightharpoonup> int)" where
  "dict_of_enumerate [] index d = d"
| "dict_of_enumerate (text # rest) index d = dict_of_enumerate rest (index + 1) (d(text \<mapsto> index))"

text \<open>\<open>x if x is not None else 0xFFFFFFFF\<close>.\<close>

definition or_sentinel :: "int option \<Rightarrow> int" where
  "or_sentinel x = (case x of Some v \<Rightarrow> v | None \<Rightarrow> 0xFFFFFFFF)"

section \<open>Constants of the format\<close>

definition RES_XML_TYPE :: int where "RES_XML_TYPE = 0x0003"
definition RES_STRING_POOL_TYPE :: int where "RES_STRING_POOL_TYPE = 0x0001"
definition RES_XML_RESOURCE_MAP_TYPE :: int where "RES_XML_RESOURCE_MAP_TYPE = 0x0180"
definition RES_XML_START_NAMESPACE_TYPE :: int where "RES_XML_START_NAMESPACE_TYPE = 0x0100"
definition RES_XML_END_NAMESPACE_TYPE :: int where "RES_XML_END_NAMESPACE_TYPE = 0x0101"
definition RES_XML_START_ELEMENT_TYPE :: int where "RES_XML_START_ELEMENT_TYPE = 0x0102"
definition RES_XML_END_ELEMENT_TYPE :: int where "RES_XML_END_ELEMENT_TYPE = 0x0103"
definition DATA_TYPE_STRING :: int where "DATA_TYPE_STRING = 0x03"
definition ANDROID_NAME_RESOURCE_ID :: int where "ANDROID_NAME_RESOURCE_ID = 0x01010003"

lemmas format_constants =
  RES_XML_TYPE_def RES_STRING_POOL_TYPE_def RES_XML_RESOURCE_MAP_TYPE_def
  RES_XML_START_NAMESPACE_TYPE_def RES_XML_END_NAMESPACE_TYPE_def
  RES_XML_START_ELEMENT_TYPE_def RES_XML_END_ELEMENT_TYPE_def DATA_TYPE_STRING_def
  ANDROID_NAME_RESOURCE_ID_def

section \<open>The variable-length length codec\<close>

definition encode_length :: "int \<Rightarrow> error + bytes" where
  "encode_length val =
     (if val < 0 \<or> val > 0x3FFF then Inl ValueError
      else if val \<le> 0x7F then py_bytes [val]
      else py_bytes [(val AND 0x7F) OR 0x80, drop_bit 7 val])"

text \<open>
  The reader's side of the codec, following the specification's description of the
  1-or-2-byte scheme (the source has no decoder): a first byte with the high bit clear is
  the value; otherwise its low seven bits are the low bits of the value and the next
  byte holds the bits above them.  It returns the value and the unread rest.
\<close>

fun spec_decode_length :: "bytes \<Rightarrow> (int \<times> bytes) option" where
  "spec_decode_length [] = None"
| "spec_decode_length (b0 # rest) =
     (if uint b0 AND 0x80 = 0 then Some (uint b0, rest)
      else (case rest of
              [] \<Rightarrow> None
            | b1 # rest' \<Rightarrow> Some ((uint b0 AND 0x7F) OR push_bit 7 (uint b1), rest')))"


section \<open>The string pool builder\<close>

text \<open>
  The \<open>for text in strings\<close> loop; its state is the list \<open>offsets\<close> and the buffer
  \<open>body\<close>.  An exception raised inside the loop ends the call: nothing is returned.
\<close>

fun pool_loop :: "pystr list \<Rightarrow> int list \<Rightarrow> bytes \<Rightarrow> error + (int list \<times> bytes)" where
  "pool_loop [] offsets body = Inr (offsets, body)"
| "pool_loop (text # rest) offsets body =
     and_then (str_encode_utf8 text) (\<lambda>encoded.
     let offsets1 = offsets @ [int (length body)] in
     and_then (encode_length (int (length text))) (\<lambda>char_len.
     let body1 = body @ char_len in
     and_then (encode_length (int (length encoded))) (\<lambda>byte_len.
     let body2 = body1 @ byte_len;
         body3 = body2 @ (encoded @ [0])
     in pool_loop rest offsets1 body3)))"

text \<open>
  The padding loop makes progress: each appended byte brings the length closer to the
  next multiple of 4.
\<close>

lemma pad4_measure:
  assumes "0 < n mod (4::nat)"
  shows "(4 - Suc n mod 4) mod 4 < 4 - n mod 4"
proof -
  have "n mod 4 < 4" by simp
  then consider "n mod 4 = 1" | "n mod 4 = 2" | "n mod 4 = 3"
    using assms by linarith
  then show ?thesis by cases (simp_all add: mod_Suc)
qed

text \<open>\<open>while len(body) % 4: body += b"\x00"\<close>.\<close>

function pad4 :: "bytes \<Rightarrow> bytes" where
  "pad4 body = (if length body mod 4 \<noteq> 0 then pad4 (body @ [0]) else body)"
  by pat_completeness auto
termination
  by (relation "measure (\<lambda>body. (4 - length body mod 4) mod 4)")
     (simp_all add: pad4_measure)

declare pad4.simps [simp del]

text \<open>
  \<open>for v in values: chunk += struct.pack("<I", v)\<close>, the loop that writes the offset
  table of the string pool and the entries of the resource map.
\<close>

fun append_u32s :: "int list \<Rightarrow> bytes \<Rightarrow> error + bytes" where
  "append_u32s [] chunk = Inr chunk"
| "append_u32s (v # vs) chunk =
     and_then (struct_pack [Fmt_I] [v]) (\<lambda>b. append_u32s vs (chunk @ b))"

definition build_string_pool :: "pystr list \<Rightarrow> error + (bytes \<times> (pystr \<rightharpoonup> int))" where
  "build_string_pool strings =
     (let header_size = 28;
          flags_utf8 = 0x00000100
      in
      and_then (pool_loop strings [] []) (\<lambda>(offsets, body0).
      let body = pad4 body0;
          strings_start = header_size + int (length strings) * 4;
          chunk_size = strings_start + int (length body)
      in
      and_then (struct_pack [Fmt_H, Fmt_H, Fmt_I]
                  [RES_STRING_POOL_TYPE, header_size, chunk_size]) (\<lambda>header.
      and_then (struct_pack [Fmt_I, Fmt_I, Fmt_I, Fmt_I, Fmt_I]
                  [int (length strings), 0, flags_utf8, strings_start, 0]) (\<lambda>fields.
      and_then (append_u32s offsets (header @ fields)) (\<lambda>chunk.
      Inr (chunk @ body, dict_of_enumerate strings 0 Map.empty))))))"

section \<open>The resource map, namespace and element chunk builders\<close>

definition build_resource_map :: "int list \<Rightarrow> error + bytes" where
  "build_resource_map resource_ids =
     (let header_size = 8;
          chunk_size = header_size + 4 * int (length resource_ids)
      in
      and_then (struct_pack [Fmt_H, Fmt_H, Fmt_I]
                  [RES_XML_RESOURCE_MAP_TYPE, header_size, chunk_size]) (\<lambda>chunk.
      append_u32s resource_ids chunk))"

definition namespace_chunk :: "int \<Rightarrow> int \<Rightarrow> int \<Rightarrow> error + bytes" where
  "namespace_chunk chunk_type prefix_index uri_index =
     (let header_size = 0x18;
          chunk_size = header_size
      in
      and_then (struct_pack [Fmt_H, Fmt_H, Fmt_I] [chunk_type, header_size, chunk_size]) (\<lambda>a.
      and_then (struct_pack [Fmt_I, Fmt_I] [0, 0]) (\<lambda>b.
      and_then (struct_pack [Fmt_I, Fmt_I] [prefix_index, uri_index]) (\<lambda>c.
      Inr (a @ b @ c)))))"

text \<open>
  An attribute as the source passes it: \<open>(attr_ns, attr_name, raw_index, (data_type,
  data_value))\<close>, where \<open>attr_ns\<close> and \<open>raw_index\<close> may be \<open>None\<close>.
\<close>

type_synonym attribute = "int option \<times> int \<times> int option \<times> (int \<times> int)"

fun attribute_loop :: "attribute list \<Rightarrow> bytes \<Rightarrow> error + bytes" where
  "attribute_loop [] chunk = Inr chunk"
| "attribute_loop ((attr_ns, attr_name, raw_index, (data_type, data_value)) # rest) chunk =
     and_then (struct_pack [Fmt_I] [or_sentinel attr_ns]) (\<lambda>b1.
     and_then (struct_pack [Fmt_I] [attr_name]) (\<lambda>b2.
     and_then (struct_pack [Fmt_I] [or_sentinel raw_index]) (\<lambda>b3.
     and_then (struct_pack [Fmt_H, Fmt_B, Fmt_B, Fmt_I] [8, 0, data_type, data_value]) (\<lambda>b4.
     attribute_loop rest (chunk @ b1 @ b2 @ b3 @ b4)))))"

definition start_element_chunk :: "int option \<Rightarrow> int \<Rightarrow> attribute list \<Rightarrow> error + bytes" where
  "start_element_chunk ns_index name_index attributes =
     (let header_size = 0x24;
          attribute_size = 0x14;
          chunk_size = header_size + attribute_size * int (length attributes)
      in
      and_then (struct_pack [Fmt_H, Fmt_H, Fmt_I]
                  [RES_XML_START_ELEMENT_TYPE, header_size, chunk_size]) (\<lambda>a.
      and_then (struct_pack [Fmt_I, Fmt_I] [0, 0]) (\<lambda>b.
      and_then (struct_pack [Fmt_I, Fmt_I] [or_sentinel ns_index, name_index]) (\<lambda>c.
      and_then (struct_pack [Fmt_H, Fmt_H, Fmt_H, Fmt_H, Fmt_H, Fmt_H]
                  [0x14, 0x14, int (length attributes), 0, 0, 0]) (\<lambda>d.
      attribute_loop attributes (a @ b @ c @ d))))))"

definition end_element_chunk :: "int option \<Rightarrow> int \<Rightarrow> error + bytes" where
  "end_element_chunk ns_index name_index =
     (let header_size = 0x18;
          chunk_size = header_size
      in
      and_then (struct_pack [Fmt_H, Fmt_H, Fmt_I]
                  [RES_XML_END_ELEMENT_TYPE, header_size, chunk_size]) (\<lambda>a.
      and_then (struct_pack [Fmt_I, Fmt_I] [0, 0]) (\<lambda>b.
      and_then (struct_pack [Fmt_I, Fmt_I] [or_sentinel ns_index, name_index]) (\<lambda>c.
      Inr (a @ b @ c)))))"

section \<open>The document assembler\<close>

text \<open>The literal \<open>strings\<close> of \<open>build_manifest\<close>.\<close>

definition manifest_strings :: "pystr list" where
  "manifest_strings =
     [lit ''manifest'',
      lit ''http://schemas.android.com/apk/res/android'',
      lit ''android'',
      lit ''package'',
      lit ''application'',
      lit ''activity'',
      lit ''intent-filter'',
      lit ''action'',
      lit ''category'',
      lit ''name'',
      lit ''com.tencent.mm'',
      lit ''com.tencent.mm.ui.MainTabUI'',
      lit ''android.intent.action.MAIN'',
      lit ''android.intent.category.LAUNCHER'']"

text \<open>
  \<open>manifest.append(c)\<close>, where evaluating \<open>c\<close> may raise: the list so far, or the
  exception that already ended the call.
\<close>

definition append_chunk :: "error + bytes list \<Rightarrow> error + bytes \<Rightarrow> error + bytes list" where
  "append_chunk manifest c =
     and_then manifest (\<lambda>chunks. and_then c (\<lambda>chunk. Inr (chunks @ [chunk])))"

text \<open>
  The list \<open>manifest\<close> of \<open>build_manifest\<close> as it stands before \<open>b"".join(manifest)\<close>.
  Each \<open>indexes[...]\<close> is evaluated where the source evaluates it, as an argument of
  the call that builds the chunk.
\<close>

definition manifest_chunks :: "error + bytes list" where
  "manifest_chunks =
     and_then (build_string_pool manifest_strings) (\<lambda>(string_pool, indexes).
     and_then (build_resource_map [ANDROID_NAME_RESOURCE_ID]) (\<lambda>res_map.
     and_then (getitem indexes (lit ''http://schemas.android.com/apk/res/android'')) (\<lambda>ns_uri.
     and_then (getitem indexes (lit ''android'')) (\<lambda>ns_prefix.
     let m0 = Inr [string_pool, res_map];
         m1 = append_chunk m0
                (namespace_chunk RES_XML_START_NAMESPACE_TYPE ns_prefix ns_uri);
         m2 = append_chunk m1
                (and_then (getitem indexes (lit ''manifest'')) (\<lambda>name.
                 and_then (getitem indexes (lit ''package'')) (\<lambda>attr_name.
                 and_then (getitem indexes (lit ''com.tencent.mm'')) (\<lambda>raw.
                 and_then (getitem indexes (lit ''com.tencent.mm'')) (\<lambda>data.
                 start_element_chunk None name
                   [(None, attr_name, Some raw, (DATA_TYPE_STRING, data))])))));
         m3 = append_chunk m2
                (and_then (getitem indexes (lit ''application'')) (\<lambda>name.
                 start_element_chunk None name []));
         m4 = append_chunk m3
                (and_then (getitem indexes (lit ''activity'')) (\<lambda>name.
                 and_then (getitem indexes (lit ''name'')) (\<lambda>attr_name.
                 and_then (getitem indexes (lit ''com.tencent.mm.ui.MainTabUI'')) (\<lambda>raw.
                 and_then (getitem indexes (lit ''com.tencent.mm.ui.MainTabUI'')) (\<lambda>data.
                 start_element_chunk (Some ns_uri) name
                   [(Some ns_uri, attr_name, Some raw, (DATA_TYPE_STRING, data))])))));
         m5 = append_chunk m4
                (and_then (getitem indexes (lit ''intent-filter'')) (\<lambda>name.
                 start_element_chunk None name []));
         m6 = append_chunk m5
                (and_then (getitem indexes (lit ''action'')) (\<lambda>name.
                 and_then (getitem indexes (lit ''name'')) (\<lambda>attr_name.
                 and_then (getitem indexes (lit ''android.intent.action.MAIN'')) (\<lambda>raw.
                 and_then (getitem indexes (lit ''android.intent.action.MAIN'')) (\<lambda>data.
                 start_element_chunk (Some ns_uri) name
                   [(Some ns_uri, attr_name, Some raw, (DATA_TYPE_STRING, data))])))));
         m7 = append_chunk m6
                (and_then (getitem indexes (lit ''action'')) (\<lambda>name.
                 end_element_chunk (Some ns_uri) name));
         m8 = append_chunk m7
                (and_then (getitem indexes (lit ''category'')) (\<lambda>name.
                 and_then (getitem indexes (lit ''name'')) (\<lambda>attr_name.
                 and_then (getitem indexes (lit ''android.intent.category.LAUNCHER'')) (\<lambda>raw.
                 and_then (getitem indexes (lit ''android.intent.category.LAUNCHER'')) (\<lambda>data.
                 start_element_chunk (Some ns_uri) name
                   [(Some ns_uri, attr_name, Some raw, (DATA_TYPE_STRING, data))])))));
         m9 = append_chunk m8
                (and_then (getitem indexes (lit ''category'')) (\<lambda>name.
                 end_element_chunk (Some ns_uri) name));
         m10 = append_chunk m9
                (and_then (getitem indexes (lit ''intent-filter'')) (\<lambda>name.
                 end_element_chunk None name));
         m11 = append_chunk m10
                (and_then (getitem indexes (lit ''activity'')) (\<lambda>name.
                 end_element_chunk (Some ns_uri) name));
         m12 = append_chunk m11
                (and_then (getitem indexes (lit ''application'')) (\<lambda>name.
                 end_element_chunk None name));
         m13 = append_chunk m12
                (and_then (getitem indexes (lit ''manifest'')) (\<lambda>name.
                 end_element_chunk None name));
         m14 = append_chunk m13
                (namespace_chunk RES_XML_END_NAMESPACE_TYPE ns_prefix ns_uri)
     in m14))))"

definition build_manifest :: "error + bytes" where
  "build_manifest =
     and_then manifest_chunks (\<lambda>manifest.
     let payload = concat manifest in
     and_then (struct_pack [Fmt_H, Fmt_H, Fmt_I]
                 [RES_XML_TYPE, 8, int (length payload) + 8]) (\<lambda>header.
     Inr (header @ payload)))"

section \<open>Reading the output back\<close>

text \<open>Reading a little-endian unsigned integer back from bytes.\<close>

fun le_int :: "bytes \<Rightarrow> int" where
  "le_int [] = 0"
| "le_int (b # bs) = uint b + 256 * le_int bs"

definition u16_at :: "bytes \<Rightarrow> nat \<Rightarrow> int" where
  "u16_at c i = le_int (take 2 (drop i c))"

definition u32_at :: "bytes \<Rightarrow> nat \<Rightarrow> int" where
  "u32_at c i = le_int (take 4 (drop i c))"

text \<open>
  One string of the pool as the specification words it: the character length and the
  byte length in the length codec, the UTF-8 bytes, one zero byte.
\<close>

definition spec_pool_entry :: "pystr \<Rightarrow> error + bytes" where
  "spec_pool_entry text =
     and_then (str_encode_utf8 text) (\<lambda>encoded.
     and_then (encode_length (int (length text))) (\<lambda>char_len.
     and_then (encode_length (int (length encoded))) (\<lambda>byte_len.
     Inr (char_len @ byte_len @ encoded @ [0]))))"


text \<open>
  The offsets at which consecutive entries begin when they are laid out one after the
  other from position \<open>start\<close>, with nothing between them.
\<close>

fun entry_offsets :: "nat \<Rightarrow> bytes list \<Rightarrow> int list" where
  "entry_offsets start [] = []"
| "entry_offsets start (e # es) = int start # entry_offsets (start + length e) es"


text \<open>
  The string pool chunk as the specification lays it out, for \<open>n\<close> strings with the
  entries \<open>es\<close>: the chunk header (type, header size 28, total size), the string
  count, style count 0, the UTF-8 flag, strings-start, styles-start 0, the offset table,
  and the entries padded to a 4-byte boundary.
\<close>

definition spec_pool_chunk :: "nat \<Rightarrow> bytes list \<Rightarrow> bytes" where
  "spec_pool_chunk n es =
     le_bytes 2 1 @ le_bytes 2 28 @
     le_bytes 4 (28 + 4 * int n + int (length (pad4 (concat es)))) @
     le_bytes 4 (int n) @ le_bytes 4 0 @ le_bytes 4 0x100 @
     le_bytes 4 (28 + 4 * int n) @ le_bytes 4 0 @
     concat (map (le_bytes 4) (entry_offsets 0 es)) @
     pad4 (concat es)"

section \<open>Element chunks as the specification lays them out\<close>

definition u8_at :: "bytes \<Rightarrow> nat \<Rightarrow> int" where
  "u8_at c i = le_int (take 1 (drop i c))"

text \<open>
  The values \<open>struct.pack\<close> accepts for an attribute, and the 20-byte attribute record as
  the specification lays it out.
\<close>

definition attribute_in_range :: "attribute \<Rightarrow> bool" where
  "attribute_in_range a =
     (case a of (attr_ns, attr_name, raw_index, (data_type, data_value)) \<Rightarrow>
        0 \<le> or_sentinel attr_ns \<and> or_sentinel attr_ns < 2 ^ 32 \<and>
        0 \<le> attr_name \<and> attr_name < 2 ^ 32 \<and>
        0 \<le> or_sentinel raw_index \<and> or_sentinel raw_index < 2 ^ 32 \<and>
        0 \<le> data_type \<and> data_type < 2 ^ 8 \<and>
        0 \<le> data_value \<and> data_value < 2 ^ 32)"

definition spec_attribute_record :: "attribute \<Rightarrow> bytes" where
  "spec_attribute_record a =
     (case a of (attr_ns, attr_name, raw_index, (data_type, data_value)) \<Rightarrow>
        le_bytes 4 (or_sentinel attr_ns) @ le_bytes 4 attr_name @
        le_bytes 4 (or_sentinel raw_index) @
        le_bytes 2 8 @ le_bytes 1 0 @ le_bytes 1 data_type @ le_bytes 4 data_value)"

text \<open>The arguments for which every \<open>struct.pack\<close> of \<open>start_element_chunk\<close> succeeds.\<close>

definition start_element_in_range :: "int option \<Rightarrow> int \<Rightarrow> attribute list \<Rightarrow> bool" where
  "start_element_in_range ns_index name_index attributes \<longleftrightarrow>
     0 \<le> or_sentinel ns_index \<and> or_sentinel ns_index < 2 ^ 32 \<and>
     0 \<le> name_index \<and> name_index < 2 ^ 32 \<and>
     length attributes < 2 ^ 16 \<and>
     (\<forall>a\<in>set attributes. attribute_in_range a)"

text \<open>
  The start and end chunks of an element as the specification lays them out: a 36-byte
  header followed by the attribute records, and a fixed 24-byte chunk.
\<close>

definition spec_start_element :: "int option \<Rightarrow> int \<Rightarrow> attribute list \<Rightarrow> bytes" where
  "spec_start_element ns_index name_index attributes =
     le_bytes 2 0x0102 @ le_bytes 2 36 @ le_bytes 4 (36 + 20 * int (length attributes)) @
     le_bytes 4 0 @ le_bytes 4 0 @
     le_bytes 4 (or_sentinel ns_index) @ le_bytes 4 name_index @
     le_bytes 2 20 @ le_bytes 2 20 @ le_bytes 2 (int (length attributes)) @
     le_bytes 2 0 @ le_bytes 2 0 @ le_bytes 2 0 @
     concat (map spec_attribute_record attributes)"

definition spec_end_element :: "int option \<Rightarrow> int \<Rightarrow> bytes" where
  "spec_end_element ns_index name_index =
     le_bytes 2 0x0103 @ le_bytes 2 24 @ le_bytes 4 24 @ le_bytes 4 0 @ le_bytes 4 0 @
     le_bytes 4 (or_sentinel ns_index) @ le_bytes 4 name_index"

section \<open>Reading a document back\<close>

text \<open>
  Re-walking a buffer of sibling chunks: each chunk is as long as its own total-size
  field says.  The walk fails when a declared size is below the 8 bytes of the chunk
  header or runs past the end of the buffer.
\<close>

function split_chunks :: "bytes \<Rightarrow> bytes list option" where
  "split_chunks buf =
     (if buf = [] then Some []
      else let n = nat (u32_at buf 4) in
        if n < 8 \<or> length buf < n then None
        else map_option ((#) (take n buf)) (split_chunks (drop n buf)))"
  by pat_completeness auto
termination
  by (relation "measure length") auto

declare split_chunks.simps [simp del]

text \<open>What a reader of the document sees in a chunk.\<close>

datatype event =
    StringPool int
  | ResourceMap "int list"
  | StartNamespace int int
  | EndNamespace int int
  | StartElement "int option" int "attribute list"
  | EndElement "int option" int
  | Unknown

definition index_or_absent :: "int \<Rightarrow> int option" where
  "index_or_absent v = (if v = 0xFFFFFFFF then None else Some v)"

definition parse_attribute :: "bytes \<Rightarrow> attribute" where
  "parse_attribute r =
     (index_or_absent (u32_at r 0), u32_at r 4, index_or_absent (u32_at r 8),
      (u8_at r 15, u32_at r 16))"

definition parse_chunk :: "bytes \<Rightarrow> event" where
  "parse_chunk c =
     (let t = u16_at c 0 in
      if t = RES_STRING_POOL_TYPE then StringPool (u32_at c 8)
      else if t = RES_XML_RESOURCE_MAP_TYPE then
        ResourceMap (map (\<lambda>i. u32_at c (8 + 4 * i)) [0 ..< (length c - 8) div 4])
      else if t = RES_XML_START_NAMESPACE_TYPE then StartNamespace (u32_at c 16) (u32_at c 20)
      else if t = RES_XML_END_NAMESPACE_TYPE then EndNamespace (u32_at c 16) (u32_at c 20)
      else if t = RES_XML_START_ELEMENT_TYPE then
        StartElement (index_or_absent (u32_at c 16)) (u32_at c 20)
          (map (\<lambda>i. parse_attribute (take 20 (drop (36 + 20 * i) c)))
             [0 ..< nat (u16_at c 28)])
      else if t = RES_XML_END_ELEMENT_TYPE then
        EndElement (index_or_absent (u32_at c 16)) (u32_at c 20)
      else Unknown)"

text \<open>
  Stack discipline of the element events: a start pushes its namespace and name indices,
  an end must carry the indices on top of the stack and pops them, and the stack is empty
  when the events are exhausted.
\<close>

fun well_nested :: "(int option \<times> int) list \<Rightarrow> event list \<Rightarrow> bool" where
  "well_nested stack [] = (stack = [])"
| "well_nested stack (StartElement ns name attrs # evs) = well_nested ((ns, name) # stack) evs"
| "well_nested stack (EndElement ns name # evs) =
     (case stack of
        [] \<Rightarrow> False
      | open_elem # below \<Rightarrow> open_elem = (ns, name) \<and> well_nested below evs)"
| "well_nested stack (ev # evs) = well_nested stack evs"

text \<open>
  Every start event is followed by exactly one end event with its namespace and name
  indices.
\<close>

fun one_end_each :: "event list \<Rightarrow> bool" where
  "one_end_each [] = True"
| "one_end_each (StartElement ns name attrs # evs) =
     (count_list evs (EndElement ns name) = 1 \<and> one_end_each evs)"
| "one_end_each (ev # evs) = one_end_each evs"

text \<open>
  String \<open>i\<close> of a string pool chunk, read through the offset table: the two lengths are
  decoded and the UTF-8 bytes taken.
\<close>

definition pool_string :: "bytes \<Rightarrow> nat \<Rightarrow> bytes option" where
  "pool_string pool i =
     (let start = nat (u32_at pool 20) + nat (u32_at pool (28 + 4 * i)) in
      case spec_decode_length (drop start pool) of
        None \<Rightarrow> None
      | Some (char_len, rest) \<Rightarrow>
          (case spec_decode_length rest of
             None \<Rightarrow> None
           | Some (byte_len, rest') \<Rightarrow> Some (take (nat byte_len) rest')))"

section \<open>Properties of the length codec\<close>

lemma and_then_Inr [simp]: "and_then (Inr a) f = f a"
  by (simp add: and_then_def)

lemma and_then_Inl [simp]: "and_then (Inl e) f = Inl e"
  by (simp add: and_then_def)

lemma and_then_eq_Inr:
  "and_then x f = Inr b \<longleftrightarrow> (\<exists>a. x = Inr a \<and> f a = Inr b)"
  by (cases x) simp_all

lemma bit_0x80: "bit (0x80::int) k \<longleftrightarrow> k = 7"
  using bit_exp_iff [where ?'a = int, of 7 k] by simp

lemma bit_and_0x7F: "bit (n AND (0x7F::int)) k \<longleftrightarrow> k < 7 \<and> bit n k"
proof -
  have c: "(0x7F::int) = mask 7" by (simp add: mask_eq_exp_minus_1)
  show ?thesis unfolding c by (auto simp: bit_and_iff bit_mask_iff)
qed

lemma first_byte_range:
  "0 \<le> (n AND 0x7F) OR (0x80::int) \<and> (n AND 0x7F) OR (0x80::int) < 256"
proof -
  have a: "0 \<le> n AND 0x7F" by simp
  have b: "n AND 0x7F \<le> 0x7F" by (rule AND_upper2) simp
  have "(n AND 0x7F) OR 0x80 < 2 ^ 8"
    using a b by (intro OR_upper) simp_all
  then show ?thesis using a by simp
qed

lemma second_byte_range:
  "0 \<le> (n::int) \<Longrightarrow> n \<le> 0x3FFF \<Longrightarrow> 0 \<le> drop_bit 7 n \<and> drop_bit 7 n < 256"
  by (simp add: drop_bit_eq_div) presburger

lemma first_byte_flag: "((n AND 0x7F) OR 0x80) AND (0x80::int) \<noteq> 0"
proof
  assume "((n AND 0x7F) OR 0x80) AND (0x80::int) = 0"
  then have "bit (((n AND 0x7F) OR 0x80) AND (0x80::int)) 7 = bit (0::int) 7" by simp
  then show False by (simp add: bit_and_iff bit_or_iff bit_0x80)
qed

lemma small_flag: "0 \<le> (n::int) \<Longrightarrow> n \<le> 0x7F \<Longrightarrow> n AND 0x80 = 0"
proof -
  assume "0 \<le> n" "n \<le> 0x7F"
  then have "take_bit 7 n = n" by (simp add: take_bit_int_eq_self)
  then have "n AND 0x80 = take_bit 7 n AND 0x80" by simp
  also have "\<dots> = 0" by (rule bit_eqI) (auto simp: bit_and_iff bit_take_bit_iff bit_0x80)
  finally show ?thesis .
qed

lemma reassemble:
  "(((n AND 0x7F) OR 0x80) AND 0x7F) OR push_bit 7 (drop_bit 7 n) = (n::int)"
proof (rule bit_eqI)
  fix k
  show "bit ((((n AND 0x7F) OR 0x80) AND 0x7F) OR push_bit 7 (drop_bit 7 n)) k = bit n k"
    by (cases "k < 7")
       (simp_all add: bit_or_iff bit_and_0x7F bit_0x80 bit_push_bit_iff bit_drop_bit_eq not_less)
qed

lemma uint_byte: "0 \<le> v \<Longrightarrow> v < 256 \<Longrightarrow> uint (word_of_int v :: byte) = v"
  by (simp add: uint_word_of_int_eq take_bit_int_eq_self)

lemma encode_length_out_of_range:
  "n < 0 \<or> n > 0x3FFF \<Longrightarrow> encode_length n = Inl ValueError"
  by (auto simp: encode_length_def)

lemma encode_length_one:
  "0 \<le> n \<Longrightarrow> n \<le> 0x7F \<Longrightarrow> encode_length n = Inr [word_of_int n]"
  by (simp add: encode_length_def py_bytes_def)

lemma encode_length_two:
  assumes "0x80 \<le> n" "n \<le> 0x3FFF"
  shows "encode_length n = Inr [word_of_int ((n AND 0x7F) OR 0x80), word_of_int (drop_bit 7 n)]"
proof -
  have "0 \<le> drop_bit 7 n \<and> drop_bit 7 n < 256"
    using assms by (intro second_byte_range) simp_all
  then show ?thesis
    using assms first_byte_range [of n] by (simp add: encode_length_def py_bytes_def)
qed

lemma decode_one:
  assumes "0 \<le> n" "n \<le> 0x7F"
  shows "spec_decode_length (word_of_int n # rest) = Some (n, rest)"
proof -
  have "uint (word_of_int n :: byte) = n" using assms by (simp add: uint_byte)
  then show ?thesis using assms by (simp add: small_flag)
qed

lemma decode_two:
  assumes "0x80 \<le> n" "n \<le> 0x3FFF"
  shows "spec_decode_length
           (word_of_int ((n AND 0x7F) OR 0x80) # word_of_int (drop_bit 7 n) # rest)
         = Some (n, rest)"
proof -
  have r: "0 \<le> drop_bit 7 n \<and> drop_bit 7 n < 256"
    using assms by (intro second_byte_range) simp_all
  have u0: "uint (word_of_int ((n AND 0x7F) OR 0x80) :: byte) = (n AND 0x7F) OR 0x80"
    using first_byte_range [of n] by (simp add: uint_byte)
  have u1: "uint (word_of_int (drop_bit 7 n) :: byte) = drop_bit 7 n"
    using r by (simp add: uint_byte)
  show ?thesis
    using first_byte_flag [of n] reassemble [of n] by (simp add: u0 u1)
qed

text \<open>
  Claim C4.  For every integer \<open>n\<close>, \<open>encode_length n\<close> raises exactly when \<open>n < 0\<close> or
  \<open>n > 0x3FFF\<close>, and what it raises is the range error (\<open>ValueError\<close>).  For
  \<open>0 \<le> n \<le> 0x7F\<close> the result is the single byte \<open>n\<close>; for \<open>0x80 \<le> n \<le> 0x3FFF\<close> it is the
  two bytes \<open>(n & 0x7F) | 0x80\<close> and \<open>n >> 7\<close>.  Whenever it returns, decoding the emitted
  bytes (followed by anything) gives back \<open>n\<close> and leaves what follows unread.
\<close>

theorem encode_length_contract:
  "((\<exists>e. encode_length n = Inl e) \<longleftrightarrow> (n < 0 \<or> n > 0x3FFF)) \<and>
   (n < 0 \<or> n > 0x3FFF \<longrightarrow> encode_length n = Inl ValueError) \<and>
   (0 \<le> n \<and> n \<le> 0x7F \<longrightarrow>
      (\<exists>b. encode_length n = Inr [b] \<and> uint b = n)) \<and>
   (0x80 \<le> n \<and> n \<le> 0x3FFF \<longrightarrow>
      (\<exists>b0 b1. encode_length n = Inr [b0, b1] \<and>
         uint b0 = (n AND 0x7F) OR 0x80 \<and> uint b1 = drop_bit 7 n)) \<and>
   (\<forall>bs rest. encode_length n = Inr bs \<longrightarrow> spec_decode_length (bs @ rest) = Some (n, rest))"
proof -
  consider (out) "n < 0 \<or> n > 0x3FFF" | (one) "0 \<le> n" "n \<le> 0x7F" | (two) "0x80 \<le> n" "n \<le> 0x3FFF"
    by linarith
  then show ?thesis
  proof cases
    case out
    then have "encode_length n = Inl ValueError" by (rule encode_length_out_of_range)
    with out show ?thesis by auto
  next
    case one
    have e: "encode_length n = Inr [word_of_int n]" using one by (rule encode_length_one)
    have u: "uint (word_of_int n :: byte) = n" using one by (simp add: uint_byte)
    have d: "\<And>rest. spec_decode_length (word_of_int n # rest) = Some (n, rest)"
      using one by (rule decode_one)
    from one e u d show ?thesis by auto
  next
    case two
    have e: "encode_length n =
        Inr [word_of_int ((n AND 0x7F) OR 0x80), word_of_int (drop_bit 7 n)]"
      using two by (rule encode_length_two)
    have r: "0 \<le> drop_bit 7 n \<and> drop_bit 7 n < 256"
      using two by (intro second_byte_range) simp_all
    have u0: "uint (word_of_int ((n AND 0x7F) OR 0x80) :: byte) = (n AND 0x7F) OR 0x80"
      using first_byte_range [of n] by (simp add: uint_byte)
    have u1: "uint (word_of_int (drop_bit 7 n) :: byte) = drop_bit 7 n"
      using r by (simp add: uint_byte)
    have d: "\<And>rest. spec_decode_length
        (word_of_int ((n AND 0x7F) OR 0x80) # word_of_int (drop_bit 7 n) # rest) = Some (n, rest)"
      using two by (rule decode_two)
    from two e u0 u1 d show ?thesis by auto
  qed
qed

theorem encode_length_contract_witness:
  "encode_length 300 = Inr [0xAC, 0x02] \<and>
   spec_decode_length [0xAC, 0x02, 0x61] = Some (300, [0x61]) \<and>
   encode_length 0x4000 = Inl ValueError \<and>
   encode_length (- 1) = Inl ValueError \<and>
   encode_length 0x7F = Inr [0x7F]"
  using encode_length_contract [of 300]
  by (simp add: encode_length_def py_bytes_def)

section \<open>Properties of the string pool builder\<close>

lemma length_le_bytes [simp]: "length (le_bytes n v) = n"
  by (induction n arbitrary: v) simp_all

lemma le_int_le_bytes:
  "0 \<le> v \<Longrightarrow> v < 256 ^ n \<Longrightarrow> le_int (le_bytes n v) = v"
proof (induction n arbitrary: v)
  case 0
  then show ?case by simp
next
  case (Suc n)
  have d: "0 \<le> v div 256" "v div 256 < 256 ^ n"
    using Suc.prems by (simp_all add: pos_imp_zdiv_nonneg_iff)
  have m: "uint (word_of_int (v mod 256) :: byte) = v mod 256"
    by (simp add: uint_byte)
  show ?case
    using Suc.IH [OF d] m by simp
qed

lemma append_u32s_eq:
  "append_u32s vs chunk =
     (if \<forall>v\<in>set vs. 0 \<le> v \<and> v < 2 ^ 32
      then Inr (chunk @ concat (map (le_bytes 4) vs)) else Inl StructError)"
  by (induction vs arbitrary: chunk) simp_all

lemma pad4_eq: "pad4 body = body @ replicate ((4 - length body mod 4) mod 4) 0"
proof (induction body rule: pad4.induct)
  case (1 body)
  show ?case
  proof (cases "length body mod 4 = 0")
    case True
    then show ?thesis by (simp add: pad4.simps [of body])
  next
    case False
    have "length body mod 4 < 4" by simp
    then consider "length body mod 4 = 1" | "length body mod 4 = 2" | "length body mod 4 = 3"
      using False by linarith
    then have "Suc ((4 - Suc (length body) mod 4) mod 4) = (4 - length body mod 4) mod 4"
      by cases (simp_all add: mod_Suc)
    then have "replicate ((4 - length body mod 4) mod 4) (0::byte)
        = 0 # replicate ((4 - Suc (length body) mod 4) mod 4) 0"
      by (metis replicate_Suc)
    with False 1 show ?thesis by (simp add: pad4.simps [of body])
  qed
qed

lemma length_pad4_mod: "length (pad4 body) mod 4 = 0"
proof -
  have "(n + (4 - n mod 4) mod 4) mod 4 = 0" for n :: nat
  proof -
    define r where "r = n mod 4"
    have e: "(n + (4 - r) mod 4) mod 4 = (r + (4 - r) mod 4) mod 4"
      unfolding r_def by (simp add: mod_add_left_eq)
    have "r < 4" unfolding r_def by simp
    then consider "r = 0" | "r = 1" | "r = 2" | "r = 3" by linarith
    then have "(r + (4 - r) mod 4) mod 4 = 0" by cases simp_all
    with e show ?thesis unfolding r_def by simp
  qed
  then show ?thesis by (simp add: pad4_eq)
qed

lemma pool_loop_Cons:
  "pool_loop (text # rest) offsets body =
     and_then (spec_pool_entry text) (\<lambda>e.
       pool_loop rest (offsets @ [int (length body)]) (body @ e))"
proof (cases "str_encode_utf8 text")
  case (Inl e)
  then show ?thesis by (simp add: spec_pool_entry_def)
next
  case enc: (Inr encoded)
  show ?thesis
  proof (cases "encode_length (int (length text))")
    case (Inl e)
    then show ?thesis using enc by (simp add: spec_pool_entry_def)
  next
    case cl: (Inr char_len)
    show ?thesis
      by (cases "encode_length (int (length encoded))")
         (simp_all add: enc cl spec_pool_entry_def Let_def)
  qed
qed

lemma length_entry_offsets [simp]: "length (entry_offsets s es) = length es"
  by (induction es arbitrary: s) simp_all

lemma entry_offsets_nth:
  "i < length es \<Longrightarrow> entry_offsets s es ! i = int (s + length (concat (take i es)))"
proof (induction es arbitrary: s i)
  case Nil
  then show ?case by simp
next
  case (Cons e es)
  then show ?case by (cases i) (simp_all add: add.assoc)
qed

lemma entry_offsets_append:
  "entry_offsets s (es @ [e]) = entry_offsets s es @ [int (s + length (concat es))]"
  by (induction es arbitrary: s) (simp_all add: add.assoc)

lemma entry_offsets_bound:
  "v \<in> set (entry_offsets s es) \<Longrightarrow> 0 \<le> v \<and> v \<le> int (s + length (concat es))"
  by (induction es arbitrary: s) (fastforce simp: add.assoc)+

lemma pool_loop_Inr:
  "pool_loop ts offsets body = Inr (offsets', body') \<longleftrightarrow>
     (\<exists>es. list_all2 (\<lambda>t e. spec_pool_entry t = Inr e) ts es \<and>
           offsets' = offsets @ entry_offsets (length body) es \<and>
           body' = body @ concat es)"
proof (induction ts arbitrary: offsets body)
  case Nil
  then show ?case by auto
next
  case (Cons t ts)
  show ?case
  proof
    assume "pool_loop (t # ts) offsets body = Inr (offsets', body')"
    then obtain e where e: "spec_pool_entry t = Inr e"
      and r: "pool_loop ts (offsets @ [int (length body)]) (body @ e) = Inr (offsets', body')"
      by (auto simp: pool_loop_Cons and_then_eq_Inr simp del: pool_loop.simps)
    from r obtain es where es: "list_all2 (\<lambda>t e. spec_pool_entry t = Inr e) ts es"
      "offsets' = (offsets @ [int (length body)]) @ entry_offsets (length (body @ e)) es"
      "body' = (body @ e) @ concat es"
      using Cons.IH by blast
    have "list_all2 (\<lambda>t e. spec_pool_entry t = Inr e) (t # ts) (e # es)"
      using e es(1) by simp
    moreover have "offsets' = offsets @ entry_offsets (length body) (e # es)"
      using es(2) by simp
    moreover have "body' = body @ concat (e # es)"
      using es(3) by simp
    ultimately show "\<exists>es. list_all2 (\<lambda>t e. spec_pool_entry t = Inr e) (t # ts) es \<and>
           offsets' = offsets @ entry_offsets (length body) es \<and> body' = body @ concat es"
      by blast
  next
    assume "\<exists>es. list_all2 (\<lambda>t e. spec_pool_entry t = Inr e) (t # ts) es \<and>
           offsets' = offsets @ entry_offsets (length body) es \<and> body' = body @ concat es"
    then obtain es0 where a: "list_all2 (\<lambda>t e. spec_pool_entry t = Inr e) (t # ts) es0"
      "offsets' = offsets @ entry_offsets (length body) es0" "body' = body @ concat es0"
      by blast
    from a(1) obtain e es where es0: "es0 = e # es" and e: "spec_pool_entry t = Inr e"
      and es: "list_all2 (\<lambda>t e. spec_pool_entry t = Inr e) ts es"
      by (auto simp: list_all2_Cons1)
    have "pool_loop ts (offsets @ [int (length body)]) (body @ e) = Inr (offsets', body')"
      using Cons.IH [of "offsets @ [int (length body)]" "body @ e"] es a(2,3) es0 by auto
    then show "pool_loop (t # ts) offsets body = Inr (offsets', body')"
      using e by (simp add: pool_loop_Cons del: pool_loop.simps)
  qed
qed

lemma str_encode_utf8_error:
  "str_encode_utf8 t = Inl e \<longleftrightarrow>
     e = UnicodeEncodeError \<and> (\<exists>c\<in>set t. 0xD800 \<le> c \<and> c \<le> 0xDFFF)"
proof (induction t)
  case Nil
  then show ?case by simp
next
  case (Cons c cs)
  show ?case
  proof (cases "utf8_char c")
    case (Inl e')
    then have "e' = UnicodeEncodeError \<and> 0xD800 \<le> c \<and> c \<le> 0xDFFF"
      by (auto simp: utf8_char_def split: if_splits)
    with Inl show ?thesis by auto
  next
    case (Inr b)
    then have "\<not> (0xD800 \<le> c \<and> c \<le> 0xDFFF)"
      by (auto simp: utf8_char_def split: if_splits)
    with Inr Cons show ?thesis
      by (cases "str_encode_utf8 cs") auto
  qed
qed

lemma encode_length_error: "encode_length n = Inl e \<Longrightarrow> e = ValueError"
  using first_byte_range [of n] second_byte_range [of n]
  by (auto simp: encode_length_def py_bytes_def split: if_splits)

lemma spec_pool_entry_error:
  "spec_pool_entry t = Inl e \<Longrightarrow>
     (e = UnicodeEncodeError \<and> (\<exists>c\<in>set t. 0xD800 \<le> c \<and> c \<le> 0xDFFF)) \<or>
     (e = ValueError \<and> (\<forall>c\<in>set t. \<not> (0xD800 \<le> c \<and> c \<le> 0xDFFF)))"
proof (cases "str_encode_utf8 t")
  case (Inl e')
  assume "spec_pool_entry t = Inl e"
  with Inl have "e' = e" by (simp add: spec_pool_entry_def)
  with Inl show ?thesis using str_encode_utf8_error [of t e] by simp
next
  case enc: (Inr encoded)
  assume a: "spec_pool_entry t = Inl e"
  have ns: "\<forall>c\<in>set t. \<not> (0xD800 \<le> c \<and> c \<le> 0xDFFF)"
    using enc str_encode_utf8_error [of t UnicodeEncodeError] by auto
  have "e = ValueError"
  proof (cases "encode_length (int (length t))")
    case (Inl e')
    with a enc have "e' = e" by (simp add: spec_pool_entry_def)
    with Inl show ?thesis using encode_length_error by blast
  next
    case cl: (Inr char_len)
    show ?thesis
    proof (cases "encode_length (int (length encoded))")
      case (Inl e')
      with a enc cl have "e' = e" by (simp add: spec_pool_entry_def)
      with Inl show ?thesis using encode_length_error by blast
    next
      case (Inr byte_len)
      with a enc cl show ?thesis by (simp add: spec_pool_entry_def)
    qed
  qed
  with ns show ?thesis by simp
qed

lemma spec_pool_entry_too_long:
  assumes "length t > 0x3FFF"
  shows "\<exists>e. spec_pool_entry t = Inl e"
proof (cases "str_encode_utf8 t")
  case (Inl e)
  then show ?thesis by (simp add: spec_pool_entry_def)
next
  case (Inr encoded)
  have "encode_length (int (length t)) = Inl ValueError"
    using assms by (intro encode_length_out_of_range) simp
  with Inr show ?thesis by (simp add: spec_pool_entry_def)
qed

lemma pool_loop_too_long:
  assumes "\<exists>t\<in>set ts. length t > 0x3FFF"
  shows "\<exists>e. pool_loop ts offsets body = Inl e"
  using assms
proof (induction ts arbitrary: offsets body)
  case Nil
  then show ?case by simp
next
  case (Cons t ts)
  show ?case
  proof (cases "spec_pool_entry t")
    case (Inl e)
    then show ?thesis by (simp add: pool_loop_Cons del: pool_loop.simps)
  next
    case (Inr entry)
    then have "\<not> length t > 0x3FFF" using spec_pool_entry_too_long [of t] by auto
    with Cons.prems have "\<exists>t\<in>set ts. length t > 0x3FFF" by auto
    then obtain e where
      "pool_loop ts (offsets @ [int (length body)]) (body @ entry) = Inl e"
      using Cons.IH by blast
    with Inr show ?thesis by (simp add: pool_loop_Cons del: pool_loop.simps)
  qed
qed

lemma pool_loop_error:
  "pool_loop ts offsets body = Inl e \<Longrightarrow>
     (e = UnicodeEncodeError \<and> (\<exists>t\<in>set ts. \<exists>c\<in>set t. 0xD800 \<le> c \<and> c \<le> 0xDFFF)) \<or>
     e = ValueError"
proof (induction ts arbitrary: offsets body)
  case Nil
  then show ?case by simp
next
  case (Cons t ts)
  show ?case
  proof (cases "spec_pool_entry t")
    case (Inl e')
    with Cons.prems have "e' = e" by (simp add: pool_loop_Cons del: pool_loop.simps)
    with Inl show ?thesis using spec_pool_entry_error [of t e] by auto
  next
    case (Inr entry)
    with Cons.prems have
      "pool_loop ts (offsets @ [int (length body)]) (body @ entry) = Inl e"
      by (simp add: pool_loop_Cons del: pool_loop.simps)
    then show ?thesis using Cons.IH by fastforce
  qed
qed

lemma build_string_pool_loop_error:
  "pool_loop strings [] [] = Inl e \<Longrightarrow> build_string_pool strings = Inl e"
  by (simp add: build_string_pool_def)

text \<open>
  Claim C5.  For every list of strings in which some entry is longer than \<open>0x3FFF\<close>,
  \<open>build_string_pool\<close> raises and returns no buffer at all, neither a truncated nor a
  partial one.  What it raises is a \<open>ValueError\<close>, the class of the range error of the
  length codec: the range error itself whenever no string of the list contains a
  surrogate code point, and otherwise possibly its subclass \<open>UnicodeEncodeError\<close>, which
  \<open>text.encode\<close> raises before any length is encoded.
\<close>

theorem pool_too_long_raises:
  assumes "\<exists>t\<in>set strings. length t > 0x3FFF"
  shows "\<exists>e. build_string_pool strings = Inl e \<and> isinstance_ValueError e \<and>
             ((\<forall>t\<in>set strings. \<forall>c\<in>set t. \<not> (0xD800 \<le> c \<and> c \<le> 0xDFFF)) \<longrightarrow>
              e = ValueError)"
proof -
  obtain e where e: "pool_loop strings [] [] = Inl e"
    using assms pool_loop_too_long by blast
  then have b: "build_string_pool strings = Inl e"
    by (rule build_string_pool_loop_error)
  from e have k: "(e = UnicodeEncodeError \<and>
      (\<exists>t\<in>set strings. \<exists>c\<in>set t. 0xD800 \<le> c \<and> c \<le> 0xDFFF)) \<or> e = ValueError"
    by (rule pool_loop_error)
  then have "isinstance_ValueError e" by auto
  moreover have "(\<forall>t\<in>set strings. \<forall>c\<in>set t. \<not> (0xD800 \<le> c \<and> c \<le> 0xDFFF)) \<longrightarrow>
      e = ValueError"
    using k by auto
  ultimately show ?thesis using b by blast
qed

theorem pool_too_long_raises_witness:
  "build_string_pool [lit ''ok'', replicate 0x4000 0x61] = Inl ValueError \<and>
   (\<exists>e. build_string_pool [0xD800 # replicate 0x4000 0x61] = Inl e \<and>
        isinstance_ValueError e)"
proof -
  have "build_string_pool [lit ''ok'', replicate 0x4000 0x61] = Inl ValueError"
    using pool_too_long_raises [of "[lit ''ok'', replicate 0x4000 0x61]"]
    by (auto simp: lit_def)
  moreover have "\<exists>e. build_string_pool [0xD800 # replicate 0x4000 0x61] = Inl e \<and>
        isinstance_ValueError e"
    using pool_too_long_raises [of "[0xD800 # replicate 0x4000 0x61]"] by auto
  ultimately show ?thesis by simp
qed

lemma struct_pack_HHI:
  "struct_pack [Fmt_H, Fmt_H, Fmt_I] [a, b, c] =
     (if 0 \<le> a \<and> a < 2 ^ 16 \<and> 0 \<le> b \<and> b < 2 ^ 16 \<and> 0 \<le> c \<and> c < 2 ^ 32
      then Inr (le_bytes 2 a @ le_bytes 2 b @ le_bytes 4 c) else Inl StructError)"
  by simp

lemma struct_pack_II:
  "struct_pack [Fmt_I, Fmt_I] [a, b] =
     (if 0 \<le> a \<and> a < 2 ^ 32 \<and> 0 \<le> b \<and> b < 2 ^ 32
      then Inr (le_bytes 4 a @ le_bytes 4 b) else Inl StructError)"
  by simp

lemma struct_pack_I:
  "struct_pack [Fmt_I] [a] =
     (if 0 \<le> a \<and> a < 2 ^ 32 then Inr (le_bytes 4 a) else Inl StructError)"
  by simp

lemma struct_pack_IIIII:
  "struct_pack [Fmt_I, Fmt_I, Fmt_I, Fmt_I, Fmt_I] [a, b, c, d, e] =
     (if 0 \<le> a \<and> a < 2 ^ 32 \<and> 0 \<le> b \<and> b < 2 ^ 32 \<and> 0 \<le> c \<and> c < 2 ^ 32 \<and>
         0 \<le> d \<and> d < 2 ^ 32 \<and> 0 \<le> e \<and> e < 2 ^ 32
      then Inr (le_bytes 4 a @ le_bytes 4 b @ le_bytes 4 c @ le_bytes 4 d @ le_bytes 4 e)
      else Inl StructError)"
  by simp

lemma struct_pack_HHHHHH:
  "struct_pack [Fmt_H, Fmt_H, Fmt_H, Fmt_H, Fmt_H, Fmt_H] [a, b, c, d, e, f] =
     (if 0 \<le> a \<and> a < 2 ^ 16 \<and> 0 \<le> b \<and> b < 2 ^ 16 \<and> 0 \<le> c \<and> c < 2 ^ 16 \<and>
         0 \<le> d \<and> d < 2 ^ 16 \<and> 0 \<le> e \<and> e < 2 ^ 16 \<and> 0 \<le> f \<and> f < 2 ^ 16
      then Inr (le_bytes 2 a @ le_bytes 2 b @ le_bytes 2 c @ le_bytes 2 d @ le_bytes 2 e @
                le_bytes 2 f)
      else Inl StructError)"
  by simp

lemma struct_pack_HBBI:
  "struct_pack [Fmt_H, Fmt_B, Fmt_B, Fmt_I] [a, b, c, d] =
     (if 0 \<le> a \<and> a < 2 ^ 16 \<and> 0 \<le> b \<and> b < 2 ^ 8 \<and> 0 \<le> c \<and> c < 2 ^ 8 \<and>
         0 \<le> d \<and> d < 2 ^ 32
      then Inr (le_bytes 2 a @ le_bytes 1 b @ le_bytes 1 c @ le_bytes 4 d)
      else Inl StructError)"
  by simp


lemma build_string_pool_Inr:
  "build_string_pool strings = Inr (chunk, indexes) \<longleftrightarrow>
     (\<exists>es. list_all2 (\<lambda>t e. spec_pool_entry t = Inr e) strings es \<and>
           28 + 4 * int (length strings) + int (length (pad4 (concat es))) < 2 ^ 32 \<and>
           chunk = spec_pool_chunk (length strings) es \<and>
           indexes = dict_of_enumerate strings 0 Map.empty)"
proof
  assume a: "build_string_pool strings = Inr (chunk, indexes)"
  then obtain offsets body0 where pl: "pool_loop strings [] [] = Inr (offsets, body0)"
    by (cases "pool_loop strings [] []") (auto simp: build_string_pool_def)
  then obtain es where es: "list_all2 (\<lambda>t e. spec_pool_entry t = Inr e) strings es"
    and o: "offsets = entry_offsets 0 es" and b: "body0 = concat es"
    using pool_loop_Inr [of strings "[]" "[]" offsets body0] by auto
  have sz: "28 + 4 * int (length strings) + int (length (pad4 (concat es))) < 2 ^ 32"
    using a pl b
    by (simp add: build_string_pool_def Let_def format_constants struct_pack_HHI
        del: struct_pack.simps split: if_splits)
  have "chunk = spec_pool_chunk (length strings) es \<and>
        indexes = dict_of_enumerate strings 0 Map.empty"
    using a pl b o sz
    by (simp add: build_string_pool_def Let_def format_constants struct_pack_HHI
        struct_pack_IIIII append_u32s_eq spec_pool_chunk_def mult.commute
        del: struct_pack.simps split: if_splits)
  with es sz show "\<exists>es. list_all2 (\<lambda>t e. spec_pool_entry t = Inr e) strings es \<and>
           28 + 4 * int (length strings) + int (length (pad4 (concat es))) < 2 ^ 32 \<and>
           chunk = spec_pool_chunk (length strings) es \<and>
           indexes = dict_of_enumerate strings 0 Map.empty"
    by blast
next
  assume "\<exists>es. list_all2 (\<lambda>t e. spec_pool_entry t = Inr e) strings es \<and>
           28 + 4 * int (length strings) + int (length (pad4 (concat es))) < 2 ^ 32 \<and>
           chunk = spec_pool_chunk (length strings) es \<and>
           indexes = dict_of_enumerate strings 0 Map.empty"
  then obtain es where es: "list_all2 (\<lambda>t e. spec_pool_entry t = Inr e) strings es"
    and sz: "28 + 4 * int (length strings) + int (length (pad4 (concat es))) < 2 ^ 32"
    and c: "chunk = spec_pool_chunk (length strings) es"
    and i: "indexes = dict_of_enumerate strings 0 Map.empty"
    by blast
  have pl: "pool_loop strings [] [] = Inr (entry_offsets 0 es, concat es)"
    using es pool_loop_Inr [of strings "[]" "[]" "entry_offsets 0 es" "concat es"] by auto
  have le: "length (concat es) \<le> length (pad4 (concat es))"
    by (simp add: pad4_eq)
  have ob: "\<forall>v\<in>set (entry_offsets 0 es). 0 \<le> v \<and> v < 2 ^ 32"
  proof
    fix v assume "v \<in> set (entry_offsets 0 es)"
    then have "0 \<le> v \<and> v \<le> int (0 + length (concat es))" by (rule entry_offsets_bound)
    with le sz show "0 \<le> v \<and> v < 2 ^ 32" by simp
  qed
  show "build_string_pool strings = Inr (chunk, indexes)"
    using pl sz ob c i
    by (simp add: build_string_pool_def Let_def format_constants struct_pack_HHI
        struct_pack_IIIII append_u32s_eq spec_pool_chunk_def mult.commute
        del: struct_pack.simps)
qed

lemma le_int_u16 [simp]: "0 \<le> v \<Longrightarrow> v < 65536 \<Longrightarrow> le_int (le_bytes 2 v) = v"
  using le_int_le_bytes [of v 2] by simp

lemma le_int_u32 [simp]: "0 \<le> v \<Longrightarrow> v < 4294967296 \<Longrightarrow> le_int (le_bytes 4 v) = v"
  using le_int_le_bytes [of v 4] by simp

lemma length_concat_le_bytes [simp]:
  "length (concat (map (le_bytes k) vs)) = k * length vs"
  by (induction vs) simp_all

lemma table_entry:
  "i < length vs \<Longrightarrow>
     take 4 (drop (4 * i) (concat (map (le_bytes 4) vs) @ rest)) = le_bytes 4 (vs ! i)"
proof (induction vs arbitrary: i)
  case Nil
  then show ?case by simp
next
  case (Cons v vs)
  show ?case
  proof (cases i)
    case 0
    then show ?thesis by simp
  next
    case (Suc j)
    then have "j < length vs" using Cons.prems by simp
    then have "take 4 (drop (4 * j) (concat (map (le_bytes 4) vs) @ rest)) = le_bytes 4 (vs ! j)"
      by (rule Cons.IH)
    then show ?thesis using Suc by simp
  qed
qed

lemma spec_pool_chunk_length:
  "length (spec_pool_chunk n es) = 28 + 4 * length es + length (pad4 (concat es))"
  by (simp add: spec_pool_chunk_def)

lemma spec_pool_chunk_body:
  "length es = n \<Longrightarrow> drop (28 + 4 * n) (spec_pool_chunk n es) = pad4 (concat es)"
  by (simp add: spec_pool_chunk_def)

lemma spec_pool_chunk_header:
  assumes "28 + 4 * int n + int (length (pad4 (concat es))) < 2 ^ 32"
  shows "u16_at (spec_pool_chunk n es) 0 = 1"
    and "u16_at (spec_pool_chunk n es) 2 = 28"
    and "u32_at (spec_pool_chunk n es) 4 = 28 + 4 * int n + int (length (pad4 (concat es)))"
    and "u32_at (spec_pool_chunk n es) 8 = int n"
    and "u32_at (spec_pool_chunk n es) 12 = 0"
    and "u32_at (spec_pool_chunk n es) 16 = 0x100"
    and "u32_at (spec_pool_chunk n es) 20 = 28 + 4 * int n"
    and "u32_at (spec_pool_chunk n es) 24 = 0"
  using assms by (simp_all add: spec_pool_chunk_def u16_at_def u32_at_def)

lemma spec_pool_chunk_offset:
  assumes "28 + 4 * int n + int (length (pad4 (concat es))) < 2 ^ 32" "i < length es"
  shows "u32_at (spec_pool_chunk n es) (28 + 4 * i) = int (length (concat (take i es)))"
proof -
  have le: "length (concat es) \<le> length (pad4 (concat es))"
    by (simp add: pad4_eq)
  have "entry_offsets 0 es ! i \<in> set (entry_offsets 0 es)"
    using assms(2) by simp
  then have b: "0 \<le> entry_offsets 0 es ! i \<and> entry_offsets 0 es ! i \<le> int (0 + length (concat es))"
    by (rule entry_offsets_bound)
  have "take 4 (drop (28 + 4 * i) (spec_pool_chunk n es)) = le_bytes 4 (entry_offsets 0 es ! i)"
    using assms(2) table_entry [of i "entry_offsets 0 es" "[]"]
    by (simp add: spec_pool_chunk_def)
  then have "u32_at (spec_pool_chunk n es) (28 + 4 * i) = entry_offsets 0 es ! i"
    using b le assms(1) by (simp add: u32_at_def)
  then show ?thesis using assms(2) by (simp add: entry_offsets_nth)
qed

lemma concat_entry_at:
  "i < length es \<Longrightarrow>
     take (length (es ! i)) (drop (length (concat (take i es))) (concat es @ rest)) = es ! i"
proof (induction es arbitrary: i)
  case Nil
  then show ?case by simp
next
  case (Cons e es)
  then show ?case by (cases i) simp_all
qed

lemma encode_length_returns:
  assumes "0 \<le> n" "n \<le> 0x3FFF"
  shows "\<exists>bs. encode_length n = Inr bs \<and> length bs \<le> 2"
proof (cases "n \<le> 0x7F")
  case True
  then show ?thesis using assms encode_length_one [of n] by simp
next
  case False
  then show ?thesis using assms encode_length_two [of n] by simp
qed

lemma spec_pool_entry_returns:
  assumes "str_encode_utf8 t = Inr encoded" "length t \<le> 0x3FFF" "length encoded \<le> 0x3FFF"
  shows "\<exists>e. spec_pool_entry t = Inr e \<and> length e \<le> 0x4004"
proof -
  obtain cl where cl: "encode_length (int (length t)) = Inr cl" "length cl \<le> 2"
    using encode_length_returns [of "int (length t)"] assms(2) by auto
  obtain bl where bl: "encode_length (int (length encoded)) = Inr bl" "length bl \<le> 2"
    using encode_length_returns [of "int (length encoded)"] assms(3) by auto
  have "spec_pool_entry t = Inr (cl @ bl @ encoded @ [0])"
    using assms(1) cl(1) bl(1) by (simp add: spec_pool_entry_def)
  moreover have "length (cl @ bl @ encoded @ [0]) \<le> 0x4004"
    using cl(2) bl(2) assms(3) by simp
  ultimately show ?thesis by blast
qed

lemma entries_exist:
  assumes "\<forall>t\<in>set ts. \<exists>e. spec_pool_entry t = Inr e \<and> length e \<le> 0x4004"
  shows "\<exists>es. list_all2 (\<lambda>t e. spec_pool_entry t = Inr e) ts es \<and>
              length (concat es) \<le> 0x4004 * length ts"
  using assms
proof (induction ts)
  case Nil
  then show ?case by simp
next
  case (Cons t ts)
  then obtain e where e: "spec_pool_entry t = Inr e" "length e \<le> 0x4004" by auto
  from Cons obtain es where es: "list_all2 (\<lambda>t e. spec_pool_entry t = Inr e) ts es"
    "length (concat es) \<le> 0x4004 * length ts" by auto
  have "list_all2 (\<lambda>t e. spec_pool_entry t = Inr e) (t # ts) (e # es)"
    using e(1) es(1) by simp
  moreover have "length (concat (e # es)) \<le> 0x4004 * length (t # ts)"
    using e(2) es(2) by simp
  ultimately show ?case by blast
qed

lemma length_pad4_le: "length (pad4 body) \<le> length body + 3"
proof -
  have "(4 - length body mod 4) mod 4 < 4" by simp
  then show ?thesis by (simp add: pad4_eq)
qed

lemma build_string_pool_returns:
  assumes "\<forall>t\<in>set strings. \<exists>encoded. str_encode_utf8 t = Inr encoded \<and>
             length t \<le> 0x3FFF \<and> length encoded \<le> 0x3FFF"
    and "length strings \<le> 0xFFFF"
  shows "\<exists>chunk indexes. build_string_pool strings = Inr (chunk, indexes)"
proof -
  have "\<forall>t\<in>set strings. \<exists>e. spec_pool_entry t = Inr e \<and> length e \<le> 0x4004"
    using assms(1) spec_pool_entry_returns by blast
  then obtain es where es: "list_all2 (\<lambda>t e. spec_pool_entry t = Inr e) strings es"
    "length (concat es) \<le> 0x4004 * length strings"
    using entries_exist by blast
  have "length (pad4 (concat es)) \<le> 0x4004 * length strings + 3"
    using length_pad4_le [of "concat es"] es(2) by linarith
  then have "28 + 4 * int (length strings) + int (length (pad4 (concat es))) < 2 ^ 32"
    using assms(2) by simp
  then show ?thesis using es(1) build_string_pool_Inr by blast
qed


text \<open>
  Claim C6.  Whenever \<open>build_string_pool\<close> returns a chunk, its body (what follows the
  28-byte header and the offset table) is the entries of the input strings in order, each
  entry being the encoded character length, the encoded byte length, the UTF-8 bytes and
  one zero byte, with nothing between consecutive entries, followed by fewer than four
  zero bytes that bring the body to a multiple of four.  Entry \<open>i\<close> of the offset table
  is the length of the entries before string \<open>i\<close>, and string \<open>i\<close>'s entry stands at
  exactly that offset of the body.  The builder does return when every string can be
  encoded, has at most \<open>0x3FFF\<close> characters and at most \<open>0x3FFF\<close> UTF-8 bytes, and
  there are at most \<open>0xFFFF\<close> strings.
\<close>

theorem string_pool_layout:
  "(build_string_pool strings = Inr (chunk, indexes) \<longrightarrow>
     (\<exists>entries pad.
        length entries = length strings \<and>
        (\<forall>i<length strings. spec_pool_entry (strings ! i) = Inr (entries ! i)) \<and>
        u32_at chunk 20 = 28 + 4 * int (length strings) \<and>
        drop (28 + 4 * length strings) chunk = concat entries @ replicate pad 0 \<and>
        pad < 4 \<and> (length (concat entries) + pad) mod 4 = 0 \<and>
        (\<forall>i<length strings.
           u32_at chunk (28 + 4 * i) = int (length (concat (take i entries))) \<and>
           take (length (entries ! i))
             (drop (28 + 4 * length strings + length (concat (take i entries))) chunk)
           = entries ! i))) \<and>
   ((\<forall>t\<in>set strings. \<exists>encoded. str_encode_utf8 t = Inr encoded \<and>
        length t \<le> 0x3FFF \<and> length encoded \<le> 0x3FFF) \<and> length strings \<le> 0xFFFF \<longrightarrow>
     (\<exists>chunk indexes. build_string_pool strings = Inr (chunk, indexes)))"
proof (intro conjI impI)
  assume "build_string_pool strings = Inr (chunk, indexes)"
  then obtain es where es: "list_all2 (\<lambda>t e. spec_pool_entry t = Inr e) strings es"
    and sz: "28 + 4 * int (length strings) + int (length (pad4 (concat es))) < 2 ^ 32"
    and c: "chunk = spec_pool_chunk (length strings) es"
    using build_string_pool_Inr by blast
  define pad where "pad = (4 - length (concat es) mod 4) mod 4"
  have len: "length es = length strings"
    using es by (simp add: list_all2_lengthD)
  have body: "drop (28 + 4 * length strings) chunk = concat es @ replicate pad 0"
    using len by (simp add: c spec_pool_chunk_body pad4_eq pad_def)
  have p1: "\<forall>i<length strings. spec_pool_entry (strings ! i) = Inr (es ! i)"
    using es by (simp add: list_all2_conv_all_nth)
  have p2: "u32_at chunk 20 = 28 + 4 * int (length strings)"
    unfolding c using sz by (rule spec_pool_chunk_header)
  have p3: "pad < 4" by (simp add: pad_def)
  have p4: "(length (concat es) + pad) mod 4 = 0"
    using length_pad4_mod [of "concat es"] by (simp add: pad4_eq pad_def)
  have p5: "\<forall>i<length strings.
           u32_at chunk (28 + 4 * i) = int (length (concat (take i es))) \<and>
           take (length (es ! i))
             (drop (28 + 4 * length strings + length (concat (take i es))) chunk) = es ! i"
  proof (intro allI impI conjI)
    fix i assume i: "i < length strings"
    show "u32_at chunk (28 + 4 * i) = int (length (concat (take i es)))"
      unfolding c using sz i len by (intro spec_pool_chunk_offset) simp_all
    have "drop (28 + 4 * length strings + length (concat (take i es))) chunk
        = drop (length (concat (take i es))) (drop (28 + 4 * length strings) chunk)"
      by (simp add: add.commute)
    then show "take (length (es ! i))
        (drop (28 + 4 * length strings + length (concat (take i es))) chunk) = es ! i"
      using i len by (simp only: body concat_entry_at)
  qed
  show "\<exists>entries pad.
        length entries = length strings \<and>
        (\<forall>i<length strings. spec_pool_entry (strings ! i) = Inr (entries ! i)) \<and>
        u32_at chunk 20 = 28 + 4 * int (length strings) \<and>
        drop (28 + 4 * length strings) chunk = concat entries @ replicate pad 0 \<and>
        pad < 4 \<and> (length (concat entries) + pad) mod 4 = 0 \<and>
        (\<forall>i<length strings.
           u32_at chunk (28 + 4 * i) = int (length (concat (take i entries))) \<and>
           take (length (entries ! i))
             (drop (28 + 4 * length strings + length (concat (take i entries))) chunk)
           = entries ! i)"
    by (intro exI [of _ es] exI [of _ pad] conjI len p1 p2 body p3 p4 p5)
next
  assume "(\<forall>t\<in>set strings. \<exists>encoded. str_encode_utf8 t = Inr encoded \<and>
        length t \<le> 0x3FFF \<and> length encoded \<le> 0x3FFF) \<and> length strings \<le> 0xFFFF"
  then show "\<exists>chunk indexes. build_string_pool strings = Inr (chunk, indexes)"
    using build_string_pool_returns by blast
qed

theorem string_pool_layout_witness:
  "\<exists>chunk indexes. build_string_pool [lit ''ab'', [0xE9]] = Inr (chunk, indexes) \<and>
     u32_at chunk 28 = 0 \<and> u32_at chunk 32 = 5 \<and>
     drop 36 chunk = [2, 2, 0x61, 0x62, 0, 1, 2, 0xC3, 0xA9, 0, 0, 0]"
proof -
  let ?S = "[lit ''ab'', [0xE9]]"
  have "(\<forall>t\<in>set ?S. \<exists>encoded. str_encode_utf8 t = Inr encoded \<and>
        length t \<le> 0x3FFF \<and> length encoded \<le> 0x3FFF) \<and> length ?S \<le> 0xFFFF"
    by (simp add: lit_def utf8_char_def)
  then obtain chunk indexes where b: "build_string_pool ?S = Inr (chunk, indexes)"
    using string_pool_layout [of ?S] by blast
  note lay = string_pool_layout [of ?S chunk indexes, THEN conjunct1, rule_format, OF b]
  from lay obtain entries pad where l: "length entries = length ?S"
    and e: "\<forall>i<length ?S. spec_pool_entry (?S ! i) = Inr (entries ! i)"
    and d: "drop (28 + 4 * length ?S) chunk = concat entries @ replicate pad 0"
    and p: "pad < 4" "(length (concat entries) + pad) mod 4 = 0"
    and o: "\<forall>i<length ?S. u32_at chunk (28 + 4 * i) = int (length (concat (take i entries)))"
    by (elim exE conjE) simp
  have e0: "entries ! 0 = [2, 2, 0x61, 0x62, 0]"
    using e [rule_format, of 0]
    by (simp add: spec_pool_entry_def lit_def utf8_char_def encode_length_def py_bytes_def)
  have e1: "entries ! 1 = [1, 2, 0xC3, 0xA9, 0]"
    using e [rule_format, of 1]
    by (simp add: spec_pool_entry_def lit_def utf8_char_def encode_length_def py_bytes_def)
  obtain a b' where ab: "entries = [a, b']"
    using l by (cases entries; cases "tl entries") auto
  have en: "entries = [[2, 2, 0x61, 0x62, 0], [1, 2, 0xC3, 0xA9, 0]]"
    using e0 e1 ab by simp
  have "pad = 2" using p en by (simp) presburger
  then have "drop 36 chunk = [2, 2, 0x61, 0x62, 0, 1, 2, 0xC3, 0xA9, 0, 0, 0]"
    using d en by (simp add: numeral_2_eq_2)
  moreover have "u32_at chunk 28 = 0" using o [rule_format, of 0] by simp
  moreover have "u32_at chunk 32 = 5" using o [rule_format, of 1] en by simp
  ultimately show ?thesis using b by blast
qed

lemma dict_of_enumerate_notin:
  "t \<notin> set ts \<Longrightarrow> dict_of_enumerate ts i d t = d t"
  by (induction ts arbitrary: i d) auto

lemma dict_of_enumerate_last:
  assumes "j < length ts" "\<forall>k. j < k \<and> k < length ts \<longrightarrow> ts ! k \<noteq> ts ! j"
  shows "dict_of_enumerate ts i d (ts ! j) = Some (i + int j)"
  using assms
proof (induction ts arbitrary: i d j)
  case Nil
  then show ?case by simp
next
  case (Cons t ts)
  show ?case
  proof (cases j)
    case 0
    have "t \<notin> set ts"
    proof
      assume "t \<in> set ts"
      then obtain k where "k < length ts" "ts ! k = t" by (auto simp: in_set_conv_nth)
      then have "(t # ts) ! Suc k = (t # ts) ! j" "j < Suc k" "Suc k < length (t # ts)"
        using 0 by simp_all
      with Cons.prems(2) show False by blast
    qed
    then show ?thesis using 0 by (simp add: dict_of_enumerate_notin)
  next
    case (Suc j')
    have a: "j' < length ts" using Cons.prems(1) Suc by simp
    have b: "\<forall>k. j' < k \<and> k < length ts \<longrightarrow> ts ! k \<noteq> ts ! j'"
    proof (intro allI impI)
      fix k assume "j' < k \<and> k < length ts"
      then have "j < Suc k \<and> Suc k < length (t # ts)" using Suc by simp
      then have "(t # ts) ! Suc k \<noteq> (t # ts) ! j" using Cons.prems(2) by blast
      then show "ts ! k \<noteq> ts ! j'" using Suc by simp
    qed
    have "dict_of_enumerate ts (i + 1) (d(t \<mapsto> i)) (ts ! j') = Some (i + 1 + int j')"
      using a b by (rule Cons.IH)
    then show ?thesis using Suc by simp
  qed
qed

lemma dom_dict_of_enumerate: "dom (dict_of_enumerate ts i d) = dom d \<union> set ts"
  by (induction ts arbitrary: i d) auto

text \<open>
  Claim C3, as stated, fails: for the input \<open>["a", "a"]\<close> the pool has the string count
  2 and holds the entry of \<open>"a"\<close> twice, and the mapping sends \<open>"a"\<close> to 1, the index of
  its last occurrence, not to 0.
\<close>

theorem pool_dedup_counterexample:
  "(case build_string_pool [lit ''a'', lit ''a''] of
      Inl e \<Rightarrow> False
    | Inr (chunk, indexes) \<Rightarrow>
        chunk = [1, 0, 28, 0, 44, 0, 0, 0,  2, 0, 0, 0,  0, 0, 0, 0,  0, 1, 0, 0,
                 36, 0, 0, 0,  0, 0, 0, 0,  0, 0, 0, 0,  4, 0, 0, 0,
                 1, 1, 0x61, 0,  1, 1, 0x61, 0] \<and>
        indexes (lit ''a'') = Some 1)"
  by code_simp

text \<open>
  Claim C3, amended.  \<open>build_string_pool\<close> does not deduplicate: whenever it returns, the
  string count is the number of input strings and the pool holds one entry per input
  string, repeated literals included, in input order; the mapping has exactly the input
  strings as keys and assigns each the index of its last occurrence.  On an input without
  repeated literals the pool therefore contains each string exactly once and the mapping
  assigns each string its index.
\<close>

theorem pool_keeps_every_string:
  assumes "build_string_pool strings = Inr (chunk, indexes)"
  shows "u32_at chunk 8 = int (length strings) \<and>
         (\<exists>entries. length entries = length strings \<and>
            (\<forall>i<length strings. spec_pool_entry (strings ! i) = Inr (entries ! i)) \<and>
            take (length (concat entries)) (drop (28 + 4 * length strings) chunk)
              = concat entries) \<and>
         dom indexes = set strings \<and>
         (\<forall>i<length strings.
            (\<forall>j. i < j \<and> j < length strings \<longrightarrow> strings ! j \<noteq> strings ! i) \<longrightarrow>
            indexes (strings ! i) = Some (int i)) \<and>
         (distinct strings \<longrightarrow> (\<forall>i<length strings. indexes (strings ! i) = Some (int i)))"
proof -
  obtain es where es: "list_all2 (\<lambda>t e. spec_pool_entry t = Inr e) strings es"
    and sz: "28 + 4 * int (length strings) + int (length (pad4 (concat es))) < 2 ^ 32"
    and c: "chunk = spec_pool_chunk (length strings) es"
    and ix: "indexes = dict_of_enumerate strings 0 Map.empty"
    using assms build_string_pool_Inr by blast
  have len: "length es = length strings"
    using es by (simp add: list_all2_lengthD)
  have p1: "u32_at chunk 8 = int (length strings)"
    unfolding c using sz by (rule spec_pool_chunk_header)
  have "length es = length strings \<and>
        (\<forall>i<length strings. spec_pool_entry (strings ! i) = Inr (es ! i)) \<and>
        take (length (concat es)) (drop (28 + 4 * length strings) chunk) = concat es"
    using es len by (simp add: c spec_pool_chunk_body pad4_eq list_all2_conv_all_nth)
  then have p2: "\<exists>entries. length entries = length strings \<and>
            (\<forall>i<length strings. spec_pool_entry (strings ! i) = Inr (entries ! i)) \<and>
            take (length (concat entries)) (drop (28 + 4 * length strings) chunk)
              = concat entries"
    by (rule exI)
  have p3: "dom indexes = set strings"
    by (simp add: ix dom_dict_of_enumerate)
  have p4: "\<forall>i<length strings.
            (\<forall>j. i < j \<and> j < length strings \<longrightarrow> strings ! j \<noteq> strings ! i) \<longrightarrow>
            indexes (strings ! i) = Some (int i)"
    using dict_of_enumerate_last [of _ strings 0 Map.empty] by (simp add: ix)
  have p5: "distinct strings \<longrightarrow> (\<forall>i<length strings. indexes (strings ! i) = Some (int i))"
  proof (intro impI allI)
    fix i assume d: "distinct strings" and i: "i < length strings"
    have "\<forall>j. i < j \<and> j < length strings \<longrightarrow> strings ! j \<noteq> strings ! i"
      using d i by (auto simp: nth_eq_iff_index_eq)
    then show "indexes (strings ! i) = Some (int i)" using p4 i by blast
  qed
  from p1 p2 p3 p4 p5 show ?thesis by (intro conjI)
qed

theorem pool_keeps_every_string_witness:
  "\<exists>chunk indexes.
     build_string_pool [lit ''a'', lit ''b'', lit ''a''] = Inr (chunk, indexes) \<and>
     u32_at chunk 8 = 3 \<and> indexes (lit ''a'') = Some 2 \<and> indexes (lit ''b'') = Some 1"
proof -
  let ?S = "[lit ''a'', lit ''b'', lit ''a'']"
  obtain chunk indexes where b: "build_string_pool ?S = Inr (chunk, indexes)"
    using build_string_pool_returns [of ?S] by (auto simp: lit_def utf8_char_def)
  note k = pool_keeps_every_string [OF b]
  have last: "\<And>i. i < length ?S \<Longrightarrow>
      (\<forall>j. i < j \<and> j < length ?S \<longrightarrow> ?S ! j \<noteq> ?S ! i) \<Longrightarrow>
      indexes (?S ! i) = Some (int i)"
    using k by blast
  have "u32_at chunk 8 = 3" using k by simp
  moreover have "indexes (?S ! 2) = Some (int 2)"
    by (rule last) (simp_all add: lit_def)
  moreover have "indexes (?S ! 1) = Some (int 1)"
  proof (rule last)
    show "1 < length ?S" by simp
    show "\<forall>j. 1 < j \<and> j < length ?S \<longrightarrow> ?S ! j \<noteq> ?S ! 1"
    proof (intro allI impI)
      fix j assume "1 < j \<and> j < length ?S"
      then have "j = 2" by simp
      then show "?S ! j \<noteq> ?S ! 1" by (simp add: lit_def)
    qed
  qed
  ultimately show ?thesis using b by (auto simp: lit_def)
qed

section \<open>Properties of the element chunk builders\<close>

lemma le_int_u8 [simp]: "0 \<le> v \<Longrightarrow> v < 256 \<Longrightarrow> le_int (le_bytes 1 v) = v"
  using le_int_le_bytes [of v 1] by simp

lemma le_int_u8_Suc [simp]:
  "0 \<le> v \<Longrightarrow> v < 256 \<Longrightarrow> le_int (le_bytes (Suc 0) v) = v"
  using le_int_u8 [of v] by simp

lemma length_spec_attribute_record [simp]: "length (spec_attribute_record a) = 20"
  by (simp add: spec_attribute_record_def split: prod.splits)

lemma attribute_loop_eq:
  "attribute_loop attrs chunk =
     (if \<forall>a\<in>set attrs. attribute_in_range a
      then Inr (chunk @ concat (map spec_attribute_record attrs)) else Inl StructError)"
proof (induction attrs arbitrary: chunk)
  case Nil
  then show ?case by simp
next
  case (Cons a attrs)
  obtain attr_ns attr_name raw_index data_type data_value
    where a: "a = (attr_ns, attr_name, raw_index, (data_type, data_value))"
    by (cases a) auto
  have r: "spec_attribute_record a =
      le_bytes 4 (or_sentinel attr_ns) @ le_bytes 4 attr_name @
      le_bytes 4 (or_sentinel raw_index) @
      (le_bytes 2 8 @ le_bytes 1 0 @ le_bytes 1 data_type @ le_bytes 4 data_value)"
    unfolding a spec_attribute_record_def by (simp only: prod.case)
  have p4: "struct_pack [Fmt_H, Fmt_B, Fmt_B, Fmt_I] [8, 0, data_type, data_value] =
      (if 0 \<le> data_type \<and> data_type < 2 ^ 8 \<and> 0 \<le> data_value \<and> data_value < 2 ^ 32
       then Inr (le_bytes 2 8 @ le_bytes 1 0 @ le_bytes 1 data_type @ le_bytes 4 data_value)
       else Inl StructError)"
    by (simp add: struct_pack_HBBI del: struct_pack.simps le_bytes.simps)
  have g: "attribute_in_range a \<longleftrightarrow>
      0 \<le> or_sentinel attr_ns \<and> or_sentinel attr_ns < 2 ^ 32 \<and>
      0 \<le> attr_name \<and> attr_name < 2 ^ 32 \<and>
      0 \<le> or_sentinel raw_index \<and> or_sentinel raw_index < 2 ^ 32 \<and>
      0 \<le> data_type \<and> data_type < 2 ^ 8 \<and>
      0 \<le> data_value \<and> data_value < 2 ^ 32"
    unfolding a attribute_in_range_def by (simp only: prod.case)
  show ?case
  proof (cases "attribute_in_range a")
    case True
    then show ?thesis
      unfolding a attribute_loop.simps Cons.IH p4 struct_pack_I
      using g r by (simp add: a del: struct_pack.simps le_bytes.simps)
  next
    case False
    then show ?thesis
      unfolding a attribute_loop.simps Cons.IH p4 struct_pack_I
      using g by (auto simp: a simp del: struct_pack.simps le_bytes.simps)
  qed
qed

lemma length_concat_records [simp]:
  "length (concat (map spec_attribute_record attrs)) = 20 * length attrs"
  by (induction attrs) simp_all

lemma record_entry:
  "i < length attrs \<Longrightarrow>
     take 20 (drop (20 * i) (concat (map spec_attribute_record attrs)))
       = spec_attribute_record (attrs ! i)"
proof (induction attrs arbitrary: i)
  case Nil
  then show ?case by simp
next
  case (Cons a attrs)
  show ?case
  proof (cases i)
    case 0
    then show ?thesis by simp
  next
    case (Suc j)
    then have "j < length attrs" using Cons.prems by simp
    then have "take 20 (drop (20 * j) (concat (map spec_attribute_record attrs)))
        = spec_attribute_record (attrs ! j)"
      by (rule Cons.IH)
    then show ?thesis using Suc by simp
  qed
qed

lemma start_element_chunk_eq:
  "start_element_chunk ns_index name_index attributes =
     (if start_element_in_range ns_index name_index attributes
      then Inr (spec_start_element ns_index name_index attributes)
      else Inl StructError)"
  by (simp add: start_element_chunk_def Let_def format_constants struct_pack_HHI
      struct_pack_II struct_pack_HHHHHH attribute_loop_eq start_element_in_range_def
      spec_start_element_def del: struct_pack.simps)

lemma end_element_chunk_eq:
  "end_element_chunk ns_index name_index =
     (if 0 \<le> or_sentinel ns_index \<and> or_sentinel ns_index < 2 ^ 32 \<and>
         0 \<le> name_index \<and> name_index < 2 ^ 32
      then Inr (spec_end_element ns_index name_index)
      else Inl StructError)"
  by (simp add: end_element_chunk_def Let_def format_constants struct_pack_HHI
      struct_pack_II spec_end_element_def del: struct_pack.simps)

lemma take_drop_take:
  "a + b \<le> n \<Longrightarrow> take b (drop a (take n xs)) = take b (drop a xs)"
  by (simp add: drop_take min_def)

lemma u32_at_record:
  "off + 4 \<le> 20 \<Longrightarrow> u32_at c (base + off) = u32_at (take 20 (drop base c)) off"
  by (simp add: u32_at_def take_drop_take add.commute)

lemma u16_at_record:
  "off + 2 \<le> 20 \<Longrightarrow> u16_at c (base + off) = u16_at (take 20 (drop base c)) off"
  by (simp add: u16_at_def take_drop_take add.commute)

lemma u8_at_record:
  "off + 1 \<le> 20 \<Longrightarrow> u8_at c (base + off) = u8_at (take 20 (drop base c)) off"
  by (simp add: u8_at_def take_drop_take add.commute)

lemma record_fields:
  assumes "attribute_in_range (attr_ns, attr_name, raw_index, (data_type, data_value))"
  defines "r \<equiv> spec_attribute_record (attr_ns, attr_name, raw_index, (data_type, data_value))"
  shows "u32_at r 0 = or_sentinel attr_ns"
    and "u32_at r 4 = attr_name"
    and "u32_at r 8 = or_sentinel raw_index"
    and "u16_at r 12 = 8"
    and "u8_at r 14 = 0"
    and "u8_at r 15 = data_type"
    and "u32_at r 16 = data_value"
  using assms(1) unfolding r_def
  by (simp_all add: attribute_in_range_def spec_attribute_record_def u32_at_def u16_at_def
      u8_at_def del: le_bytes.simps)

lemma start_element_record:
  "i < length attributes \<Longrightarrow>
     take 20 (drop (36 + 20 * i) (spec_start_element ns_index name_index attributes))
       = spec_attribute_record (attributes ! i)"
  using record_entry [of i attributes]
  by (simp add: spec_start_element_def del: le_bytes.simps)

lemma start_element_header:
  assumes "start_element_in_range ns_index name_index attributes"
  defines "c \<equiv> spec_start_element ns_index name_index attributes"
  shows "length c = 36 + 20 * length attributes"
    and "u16_at c 0 = 0x0102" and "u16_at c 2 = 36"
    and "u32_at c 4 = 36 + 20 * int (length attributes)"
    and "u32_at c 8 = 0" and "u32_at c 12 = 0"
    and "u32_at c 16 = or_sentinel ns_index" and "u32_at c 20 = name_index"
    and "u16_at c 24 = 20" and "u16_at c 26 = 20"
    and "u16_at c 28 = int (length attributes)"
    and "u16_at c 30 = 0" and "u16_at c 32 = 0" and "u16_at c 34 = 0"
  using assms(1) unfolding c_def
  by (simp_all add: start_element_in_range_def spec_start_element_def u32_at_def u16_at_def
      del: le_bytes.simps)

lemma end_element_header:
  assumes "0 \<le> or_sentinel ns_index \<and> or_sentinel ns_index < 2 ^ 32 \<and>
           0 \<le> name_index \<and> name_index < 2 ^ 32"
  defines "c \<equiv> spec_end_element ns_index name_index"
  shows "length c = 24"
    and "u16_at c 0 = 0x0103" and "u16_at c 2 = 24" and "u32_at c 4 = 24"
    and "u32_at c 8 = 0" and "u32_at c 12 = 0"
    and "u32_at c 16 = or_sentinel ns_index" and "u32_at c 20 = name_index"
  using assms(1) unfolding c_def
  by (simp_all add: spec_end_element_def u32_at_def u16_at_def del: le_bytes.simps)

lemma sentinel_bytes: "le_bytes 4 0xFFFFFFFF = [0xFF, 0xFF, 0xFF, 0xFF]"
  by (simp add: numeral_eq_Suc)

text \<open>
  Claim C8.  \<open>start_element_chunk\<close> returns exactly when every value fits its field.  The
  chunk it returns is 36 bytes of header followed by 20 bytes per attribute; the
  namespace index of the element, and the namespace and raw-value index of an attribute,
  are written as the index when present and as the sentinel \<open>0xFFFFFFFF\<close> (four bytes
  \<open>0xFF\<close>, never 0) when absent; attribute record \<open>i\<close> holds, in this order, the
  namespace index, the name index, the raw-value index, the size 8, a zero byte, the data
  type and the data value it was given.  \<open>end_element_chunk\<close> returns exactly when its
  namespace index, if present, and its name index fit 32 bits, and what it returns is a
  24-byte chunk with the same sentinel-or-index encoding.
\<close>

theorem element_chunk_layout:
  "((\<exists>c. start_element_chunk ns_index name_index attributes = Inr c) \<longleftrightarrow>
      start_element_in_range ns_index name_index attributes) \<and>
   (start_element_chunk ns_index name_index attributes = Inr chunk \<longrightarrow>
      length chunk = 36 + 20 * length attributes \<and>
      u16_at chunk 0 = 0x0102 \<and> u16_at chunk 2 = 36 \<and>
      u32_at chunk 4 = 36 + 20 * int (length attributes) \<and>
      u32_at chunk 16 = (case ns_index of None \<Rightarrow> 0xFFFFFFFF | Some v \<Rightarrow> v) \<and>
      (ns_index = None \<longrightarrow> take 4 (drop 16 chunk) = [0xFF, 0xFF, 0xFF, 0xFF]) \<and>
      u32_at chunk 20 = name_index \<and>
      u16_at chunk 28 = int (length attributes) \<and>
      (\<forall>i<length attributes.
         (case attributes ! i of (attr_ns, attr_name, raw_index, (data_type, data_value)) \<Rightarrow>
            u32_at chunk (36 + 20 * i) = (case attr_ns of None \<Rightarrow> 0xFFFFFFFF | Some v \<Rightarrow> v) \<and>
            u32_at chunk (36 + 20 * i + 4) = attr_name \<and>
            u32_at chunk (36 + 20 * i + 8) =
              (case raw_index of None \<Rightarrow> 0xFFFFFFFF | Some v \<Rightarrow> v) \<and>
            u16_at chunk (36 + 20 * i + 12) = 8 \<and>
            u8_at chunk (36 + 20 * i + 14) = 0 \<and>
            u8_at chunk (36 + 20 * i + 15) = data_type \<and>
            u32_at chunk (36 + 20 * i + 16) = data_value))) \<and>
   (end_element_chunk ns_index name_index = Inr chunk' \<longrightarrow>
      length chunk' = 24 \<and>
      u16_at chunk' 0 = 0x0103 \<and> u16_at chunk' 2 = 24 \<and> u32_at chunk' 4 = 24 \<and>
      u32_at chunk' 16 = (case ns_index of None \<Rightarrow> 0xFFFFFFFF | Some v \<Rightarrow> v) \<and>
      (ns_index = None \<longrightarrow> take 4 (drop 16 chunk') = [0xFF, 0xFF, 0xFF, 0xFF]) \<and>
      u32_at chunk' 20 = name_index) \<and>
   ((\<exists>c. end_element_chunk ns_index name_index = Inr c) \<longleftrightarrow>
      (case ns_index of None \<Rightarrow> True | Some v \<Rightarrow> 0 \<le> v \<and> v < 2 ^ 32) \<and>
      0 \<le> name_index \<and> name_index < 2 ^ 32)"
proof (intro conjI impI)
  show "(\<exists>c. start_element_chunk ns_index name_index attributes = Inr c) \<longleftrightarrow>
      start_element_in_range ns_index name_index attributes"
    by (simp add: start_element_chunk_eq)
next
  assume a: "start_element_chunk ns_index name_index attributes = Inr chunk"
  then have ok: "start_element_in_range ns_index name_index attributes"
    and c: "chunk = spec_start_element ns_index name_index attributes"
    by (simp_all add: start_element_chunk_eq split: if_splits)
  note h = start_element_header [OF ok, folded c]
  show "length chunk = 36 + 20 * length attributes" by (rule h)
  show "u16_at chunk 0 = 0x0102" by (rule h)
  show "u16_at chunk 2 = 36" by (rule h)
  show "u32_at chunk 4 = 36 + 20 * int (length attributes)" by (rule h)
  show "u32_at chunk 16 = (case ns_index of None \<Rightarrow> 0xFFFFFFFF | Some v \<Rightarrow> v)"
    using h(7) by (simp add: or_sentinel_def)
  show "u32_at chunk 20 = name_index" by (rule h)
  show "u16_at chunk 28 = int (length attributes)" by (rule h)
  show "take 4 (drop 16 chunk) = [0xFF, 0xFF, 0xFF, 0xFF]" if "ns_index = None"
    using that sentinel_bytes
    by (simp add: c spec_start_element_def or_sentinel_def del: le_bytes.simps)
  show "\<forall>i<length attributes.
         (case attributes ! i of (attr_ns, attr_name, raw_index, (data_type, data_value)) \<Rightarrow>
            u32_at chunk (36 + 20 * i) = (case attr_ns of None \<Rightarrow> 0xFFFFFFFF | Some v \<Rightarrow> v) \<and>
            u32_at chunk (36 + 20 * i + 4) = attr_name \<and>
            u32_at chunk (36 + 20 * i + 8) =
              (case raw_index of None \<Rightarrow> 0xFFFFFFFF | Some v \<Rightarrow> v) \<and>
            u16_at chunk (36 + 20 * i + 12) = 8 \<and>
            u8_at chunk (36 + 20 * i + 14) = 0 \<and>
            u8_at chunk (36 + 20 * i + 15) = data_type \<and>
            u32_at chunk (36 + 20 * i + 16) = data_value)"
  proof (intro allI impI)
    fix i assume i: "i < length attributes"
    obtain attr_ns attr_name raw_index data_type data_value
      where e: "attributes ! i = (attr_ns, attr_name, raw_index, (data_type, data_value))"
      by (cases "attributes ! i") auto
    have "attributes ! i \<in> set attributes" using i by simp
    then have r: "attribute_in_range (attr_ns, attr_name, raw_index, (data_type, data_value))"
      using ok e by (auto simp: start_element_in_range_def)
    have t: "take 20 (drop (36 + 20 * i) chunk)
        = spec_attribute_record (attr_ns, attr_name, raw_index, (data_type, data_value))"
      using i by (simp add: c start_element_record e)
    note f = record_fields [OF r, folded t]
    have "u32_at chunk (36 + 20 * i + 0) = or_sentinel attr_ns"
      using f(1) by (simp only: u32_at_record)
    moreover have "u32_at chunk (36 + 20 * i + 4) = attr_name"
      using f(2) by (simp only: u32_at_record)
    moreover have "u32_at chunk (36 + 20 * i + 8) = or_sentinel raw_index"
      using f(3) by (simp only: u32_at_record)
    moreover have "u16_at chunk (36 + 20 * i + 12) = 8"
      using f(4) by (simp only: u16_at_record)
    moreover have "u8_at chunk (36 + 20 * i + 14) = 0"
      using f(5) by (simp only: u8_at_record)
    moreover have "u8_at chunk (36 + 20 * i + 15) = data_type"
      using f(6) by (simp only: u8_at_record)
    moreover have "u32_at chunk (36 + 20 * i + 16) = data_value"
      using f(7) by (simp only: u32_at_record)
    ultimately show "case attributes ! i of
        (attr_ns, attr_name, raw_index, (data_type, data_value)) \<Rightarrow>
            u32_at chunk (36 + 20 * i) = (case attr_ns of None \<Rightarrow> 0xFFFFFFFF | Some v \<Rightarrow> v) \<and>
            u32_at chunk (36 + 20 * i + 4) = attr_name \<and>
            u32_at chunk (36 + 20 * i + 8) =
              (case raw_index of None \<Rightarrow> 0xFFFFFFFF | Some v \<Rightarrow> v) \<and>
            u16_at chunk (36 + 20 * i + 12) = 8 \<and>
            u8_at chunk (36 + 20 * i + 14) = 0 \<and>
            u8_at chunk (36 + 20 * i + 15) = data_type \<and>
            u32_at chunk (36 + 20 * i + 16) = data_value"
      by (simp add: e or_sentinel_def)
  qed
next
  assume a: "end_element_chunk ns_index name_index = Inr chunk'"
  then have ok: "0 \<le> or_sentinel ns_index \<and> or_sentinel ns_index < 2 ^ 32 \<and>
           0 \<le> name_index \<and> name_index < 2 ^ 32"
    and c: "chunk' = spec_end_element ns_index name_index"
    by (simp_all add: end_element_chunk_eq split: if_splits)
  note h = end_element_header [OF ok, folded c]
  show "length chunk' = 24" by (rule h)
  show "u16_at chunk' 0 = 0x0103" by (rule h)
  show "u16_at chunk' 2 = 24" by (rule h)
  show "u32_at chunk' 4 = 24" by (rule h)
  show "u32_at chunk' 16 = (case ns_index of None \<Rightarrow> 0xFFFFFFFF | Some v \<Rightarrow> v)"
    using h(7) by (simp add: or_sentinel_def)
  show "u32_at chunk' 20 = name_index" by (rule h)
  show "take 4 (drop 16 chunk') = [0xFF, 0xFF, 0xFF, 0xFF]" if "ns_index = None"
    using that sentinel_bytes
    by (simp add: c spec_end_element_def or_sentinel_def del: le_bytes.simps)
next
  show "(\<exists>c. end_element_chunk ns_index name_index = Inr c) \<longleftrightarrow>
      (case ns_index of None \<Rightarrow> True | Some v \<Rightarrow> 0 \<le> v \<and> v < 2 ^ 32) \<and>
      0 \<le> name_index \<and> name_index < 2 ^ 32"
    by (cases ns_index) (simp_all add: end_element_chunk_eq or_sentinel_def)
qed

theorem element_chunk_layout_witness:
  "(\<exists>chunk. start_element_chunk None 0 [(None, 3, Some 10, (DATA_TYPE_STRING, 10))] = Inr chunk \<and>
     length chunk = 56 \<and> u32_at chunk 4 = 56 \<and>
     u32_at chunk 16 = 0xFFFFFFFF \<and> u32_at chunk 20 = 0 \<and>
     u32_at chunk 36 = 0xFFFFFFFF \<and> u32_at chunk 40 = 3 \<and> u32_at chunk 44 = 10 \<and>
     u16_at chunk 48 = 8 \<and> u8_at chunk 50 = 0 \<and> u8_at chunk 51 = 3 \<and>
     u32_at chunk 52 = 10) \<and>
   (\<exists>c. end_element_chunk None 0 = Inr c \<and> length c = 24 \<and> u32_at c 4 = 24 \<and>
     u32_at c 16 = 0xFFFFFFFF \<and> take 4 (drop 16 c) = [0xFF, 0xFF, 0xFF, 0xFF] \<and>
     u32_at c 20 = 0) \<and>
   (\<exists>c. end_element_chunk (Some 1) 7 = Inr c \<and> length c = 24 \<and>
     u32_at c 16 = 1 \<and> u32_at c 20 = 7)"
proof -
  let ?A = "[(None, 3, Some 10, (DATA_TYPE_STRING, 10))] :: attribute list"
  have "start_element_in_range None 0 ?A"
    by (simp add: start_element_in_range_def attribute_in_range_def or_sentinel_def
        DATA_TYPE_STRING_def)
  then obtain chunk where c: "start_element_chunk None 0 ?A = Inr chunk"
    using element_chunk_layout [of None 0 ?A] by blast
  note l = element_chunk_layout [of None 0 ?A chunk, THEN conjunct2, THEN conjunct1,
      rule_format, OF c]
  have a: "\<forall>i<length ?A.
         (case ?A ! i of (attr_ns, attr_name, raw_index, (data_type, data_value)) \<Rightarrow>
            u32_at chunk (36 + 20 * i) = (case attr_ns of None \<Rightarrow> 0xFFFFFFFF | Some v \<Rightarrow> v) \<and>
            u32_at chunk (36 + 20 * i + 4) = attr_name \<and>
            u32_at chunk (36 + 20 * i + 8) =
              (case raw_index of None \<Rightarrow> 0xFFFFFFFF | Some v \<Rightarrow> v) \<and>
            u16_at chunk (36 + 20 * i + 12) = 8 \<and>
            u8_at chunk (36 + 20 * i + 14) = 0 \<and>
            u8_at chunk (36 + 20 * i + 15) = data_type \<and>
            u32_at chunk (36 + 20 * i + 16) = data_value)"
    using l by (elim conjE)
  have "length chunk = 56 \<and> u32_at chunk 4 = 56 \<and>
     u32_at chunk 16 = 0xFFFFFFFF \<and> u32_at chunk 20 = 0"
    using l by simp
  moreover have "u32_at chunk 36 = 0xFFFFFFFF \<and> u32_at chunk 40 = 3 \<and> u32_at chunk 44 = 10 \<and>
     u16_at chunk 48 = 8 \<and> u8_at chunk 50 = 0 \<and> u8_at chunk 51 = 3 \<and>
     u32_at chunk 52 = 10"
    using a [rule_format, of 0] by (simp add: DATA_TYPE_STRING_def)
  ultimately have s: "\<exists>chunk. start_element_chunk None 0 ?A = Inr chunk \<and>
     length chunk = 56 \<and> u32_at chunk 4 = 56 \<and>
     u32_at chunk 16 = 0xFFFFFFFF \<and> u32_at chunk 20 = 0 \<and>
     u32_at chunk 36 = 0xFFFFFFFF \<and> u32_at chunk 40 = 3 \<and> u32_at chunk 44 = 10 \<and>
     u16_at chunk 48 = 8 \<and> u8_at chunk 50 = 0 \<and> u8_at chunk 51 = 3 \<and>
     u32_at chunk 52 = 10"
    using c by blast
  note r0 = element_chunk_layout [where ns_index = None and name_index = 0,
      THEN conjunct2, THEN conjunct2, THEN conjunct2]
  obtain c0 where c0: "end_element_chunk None 0 = Inr c0"
    using r0 by auto
  note l0 = element_chunk_layout [where ns_index = None and name_index = 0 and chunk' = c0,
      THEN conjunct2, THEN conjunct2, THEN conjunct1, rule_format, OF c0]
  have e0: "\<exists>c. end_element_chunk None 0 = Inr c \<and> length c = 24 \<and> u32_at c 4 = 24 \<and>
     u32_at c 16 = 0xFFFFFFFF \<and> take 4 (drop 16 c) = [0xFF, 0xFF, 0xFF, 0xFF] \<and>
     u32_at c 20 = 0"
    using c0 l0 by (intro exI [of _ c0]) simp
  note r1 = element_chunk_layout [where ns_index = "Some 1" and name_index = 7,
      THEN conjunct2, THEN conjunct2, THEN conjunct2]
  obtain c1 where c1: "end_element_chunk (Some 1) 7 = Inr c1"
    using r1 by auto
  note l1 = element_chunk_layout [where ns_index = "Some 1" and name_index = 7 and chunk' = c1,
      THEN conjunct2, THEN conjunct2, THEN conjunct1, rule_format, OF c1]
  have e1: "\<exists>c. end_element_chunk (Some 1) 7 = Inr c \<and> length c = 24 \<and>
     u32_at c 16 = 1 \<and> u32_at c 20 = 7"
    using c1 l1 by (intro exI [of _ c1]) simp
  from s e0 e1 show ?thesis by (intro conjI)
qed

section \<open>Properties of the document\<close>

text \<open>The chunks of the document, evaluated.\<close>

lemma manifest_chunks_eval:
  "manifest_chunks = Inr
    [
      [1, 0, 28, 0, 84, 1, 0, 0, 14, 0, 0, 0, 0, 0, 0, 0, 0, 1, 0, 0, 84, 0, 0, 0, 0, 0,
       0, 0, 0, 0, 0, 0, 11, 0, 0, 0, 56, 0, 0, 0, 66, 0, 0, 0, 76, 0, 0, 0, 90, 0, 0,
       0, 101, 0, 0, 0, 117, 0, 0, 0, 126, 0, 0, 0, 137, 0, 0, 0, 144, 0, 0, 0, 161, 0,
       0, 0, 191, 0, 0, 0, 220, 0, 0, 0, 8, 8, 109, 97, 110, 105, 102, 101, 115, 116, 0,
       42, 42, 104, 116, 116, 112, 58, 47, 47, 115, 99, 104, 101, 109, 97, 115, 46, 97,
       110, 100, 114, 111, 105, 100, 46, 99, 111, 109, 47, 97, 112, 107, 47, 114, 101,
       115, 47, 97, 110, 100, 114, 111, 105, 100, 0, 7, 7, 97, 110, 100, 114, 111, 105,
       100, 0, 7, 7, 112, 97, 99, 107, 97, 103, 101, 0, 11, 11, 97, 112, 112, 108, 105,
       99, 97, 116, 105, 111, 110, 0, 8, 8, 97, 99, 116, 105, 118, 105, 116, 121, 0, 13,
       13, 105, 110, 116, 101, 110, 116, 45, 102, 105, 108, 116, 101, 114, 0, 6, 6, 97,
       99, 116, 105, 111, 110, 0, 8, 8, 99, 97, 116, 101, 103, 111, 114, 121, 0, 4, 4,
       110, 97, 109, 101, 0, 14, 14, 99, 111, 109, 46, 116, 101, 110, 99, 101, 110, 116,
       46, 109, 109, 0, 27, 27, 99, 111, 109, 46, 116, 101, 110, 99, 101, 110, 116, 46,
       109, 109, 46, 117, 105, 46, 77, 97, 105, 110, 84, 97, 98, 85, 73, 0, 26, 26, 97,
       110, 100, 114, 111, 105, 100, 46, 105, 110, 116, 101, 110, 116, 46, 97, 99, 116,
       105, 111, 110, 46, 77, 65, 73, 78, 0, 32, 32, 97, 110, 100, 114, 111, 105, 100,
       46, 105, 110, 116, 101, 110, 116, 46, 99, 97, 116, 101, 103, 111, 114, 121, 46,
       76, 65, 85, 78, 67, 72, 69, 82, 0, 0],
      [128, 1, 8, 0, 12, 0, 0, 0, 3, 0, 1, 1],
      [0, 1, 24, 0, 24, 0, 0, 0, 0, 0, 0, 0, 0, 0, 0, 0, 2, 0, 0, 0, 1, 0, 0, 0],
      [2, 1, 36, 0, 56, 0, 0, 0, 0, 0, 0, 0, 0, 0, 0, 0, 255, 255, 255, 255, 0, 0, 0, 0,
       20, 0, 20, 0, 1, 0, 0, 0, 0, 0, 0, 0, 255, 255, 255, 255, 3, 0, 0, 0, 10, 0, 0,
       0, 8, 0, 0, 3, 10, 0, 0, 0],
      [2, 1, 36, 0, 36, 0, 0, 0, 0, 0, 0, 0, 0, 0, 0, 0, 255, 255, 255, 255, 4, 0, 0, 0,
       20, 0, 20, 0, 0, 0, 0, 0, 0, 0, 0, 0],
      [2, 1, 36, 0, 56, 0, 0, 0, 0, 0, 0, 0, 0, 0, 0, 0, 1, 0, 0, 0, 5, 0, 0, 0, 20, 0,
       20, 0, 1, 0, 0, 0, 0, 0, 0, 0, 1, 0, 0, 0, 9, 0, 0, 0, 11, 0, 0, 0, 8, 0, 0, 3,
       11, 0, 0, 0],
      [2, 1, 36, 0, 36, 0, 0, 0, 0, 0, 0, 0, 0, 0, 0, 0, 255, 255, 255, 255, 6, 0, 0, 0,
       20, 0, 20, 0, 0, 0, 0, 0, 0, 0, 0, 0],
      [2, 1, 36, 0, 56, 0, 0, 0, 0, 0, 0, 0, 0, 0, 0, 0, 1, 0, 0, 0, 7, 0, 0, 0, 20, 0,
       20, 0, 1, 0, 0, 0, 0, 0, 0, 0, 1, 0, 0, 0, 9, 0, 0, 0, 12, 0, 0, 0, 8, 0, 0, 3,
       12, 0, 0, 0],
      [3, 1, 24, 0, 24, 0, 0, 0, 0, 0, 0, 0, 0, 0, 0, 0, 1, 0, 0, 0, 7, 0, 0, 0],
      [2, 1, 36, 0, 56, 0, 0, 0, 0, 0, 0, 0, 0, 0, 0, 0, 1, 0, 0, 0, 8, 0, 0, 0, 20, 0,
       20, 0, 1, 0, 0, 0, 0, 0, 0, 0, 1, 0, 0, 0, 9, 0, 0, 0, 13, 0, 0, 0, 8, 0, 0, 3,
       13, 0, 0, 0],
      [3, 1, 24, 0, 24, 0, 0, 0, 0, 0, 0, 0, 0, 0, 0, 0, 1, 0, 0, 0, 8, 0, 0, 0],
      [3, 1, 24, 0, 24, 0, 0, 0, 0, 0, 0, 0, 0, 0, 0, 0, 255, 255, 255, 255, 6, 0, 0, 0],
      [3, 1, 24, 0, 24, 0, 0, 0, 0, 0, 0, 0, 0, 0, 0, 0, 1, 0, 0, 0, 5, 0, 0, 0],
      [3, 1, 24, 0, 24, 0, 0, 0, 0, 0, 0, 0, 0, 0, 0, 0, 255, 255, 255, 255, 4, 0, 0, 0],
      [3, 1, 24, 0, 24, 0, 0, 0, 0, 0, 0, 0, 0, 0, 0, 0, 255, 255, 255, 255, 0, 0, 0, 0],
      [1, 1, 24, 0, 24, 0, 0, 0, 0, 0, 0, 0, 0, 0, 0, 0, 2, 0, 0, 0, 1, 0, 0, 0]
    ]"
  by code_simp

text \<open>
  The document, evaluated: \<open>build_manifest\<close> returns (it does not raise), and what it
  returns is the 848 bytes below.
\<close>

lemma build_manifest_eval:
  "build_manifest = Inr
     [3, 0, 8, 0, 80, 3, 0, 0, 1, 0, 28, 0, 84, 1, 0, 0, 14, 0, 0, 0, 0, 0, 0, 0, 0, 1,
      0, 0, 84, 0, 0, 0, 0, 0, 0, 0, 0, 0, 0, 0, 11, 0, 0, 0, 56, 0, 0, 0, 66, 0, 0, 0,
      76, 0, 0, 0, 90, 0, 0, 0, 101, 0, 0, 0, 117, 0, 0, 0, 126, 0, 0, 0, 137, 0, 0, 0,
      144, 0, 0, 0, 161, 0, 0, 0, 191, 0, 0, 0, 220, 0, 0, 0, 8, 8, 109, 97, 110, 105,
      102, 101, 115, 116, 0, 42, 42, 104, 116, 116, 112, 58, 47, 47, 115, 99, 104, 101,
      109, 97, 115, 46, 97, 110, 100, 114, 111, 105, 100, 46, 99, 111, 109, 47, 97, 112,
      107, 47, 114, 101, 115, 47, 97, 110, 100, 114, 111, 105, 100, 0, 7, 7, 97, 110,
      100, 114, 111, 105, 100, 0, 7, 7, 112, 97, 99, 107, 97, 103, 101, 0, 11, 11, 97,
      112, 112, 108, 105, 99, 97, 116, 105, 111, 110, 0, 8, 8, 97, 99, 116, 105, 118,
      105, 116, 121, 0, 13, 13, 105, 110, 116, 101, 110, 116, 45, 102, 105, 108, 116,
      101, 114, 0, 6, 6, 97, 99, 116, 105, 111, 110, 0, 8, 8, 99, 97, 116, 101, 103,
      111, 114, 121, 0, 4, 4, 110, 97, 109, 101, 0, 14, 14, 99, 111, 109, 46, 116, 101,
      110, 99, 101, 110, 116, 46, 109, 109, 0, 27, 27, 99, 111, 109, 46, 116, 101, 110,
      99, 101, 110, 116, 46, 109, 109, 46, 117, 105, 46, 77, 97, 105, 110, 84, 97, 98,
      85, 73, 0, 26, 26, 97, 110, 100, 114, 111, 105, 100, 46, 105, 110, 116, 101, 110,
      116, 46, 97, 99, 116, 105, 111, 110, 46, 77, 65, 73, 78, 0, 32, 32, 97, 110, 100,
      114, 111, 105, 100, 46, 105, 110, 116, 101, 110, 116, 46, 99, 97, 116, 101, 103,
      111, 114, 121, 46, 76, 65, 85, 78, 67, 72, 69, 82, 0, 0, 128, 1, 8, 0, 12, 0, 0,
      0, 3, 0, 1, 1, 0, 1, 24, 0, 24, 0, 0, 0, 0, 0, 0, 0, 0, 0, 0, 0, 2, 0, 0, 0, 1, 0,
      0, 0, 2, 1, 36, 0, 56, 0, 0, 0, 0, 0, 0, 0, 0, 0, 0, 0, 255, 255, 255, 255, 0, 0,
      0, 0, 20, 0, 20, 0, 1, 0, 0, 0, 0, 0, 0, 0, 255, 255, 255, 255, 3, 0, 0, 0, 10, 0,
      0, 0, 8, 0, 0, 3, 10, 0, 0, 0, 2, 1, 36, 0, 36, 0, 0, 0, 0, 0, 0, 0, 0, 0, 0, 0,
      255, 255, 255, 255, 4, 0, 0, 0, 20, 0, 20, 0, 0, 0, 0, 0, 0, 0, 0, 0, 2, 1, 36, 0,
      56, 0, 0, 0, 0, 0, 0, 0, 0, 0, 0, 0, 1, 0, 0, 0, 5, 0, 0, 0, 20, 0, 20, 0, 1, 0,
      0, 0, 0, 0, 0, 0, 1, 0, 0, 0, 9, 0, 0, 0, 11, 0, 0, 0, 8, 0, 0, 3, 11, 0, 0, 0, 2,
      1, 36, 0, 36, 0, 0, 0, 0, 0, 0, 0, 0, 0, 0, 0, 255, 255, 255, 255, 6, 0, 0, 0, 20,
      0, 20, 0, 0, 0, 0, 0, 0, 0, 0, 0, 2, 1, 36, 0, 56, 0, 0, 0, 0, 0, 0, 0, 0, 0, 0,
      0, 1, 0, 0, 0, 7, 0, 0, 0, 20, 0, 20, 0, 1, 0, 0, 0, 0, 0, 0, 0, 1, 0, 0, 0, 9, 0,
      0, 0, 12, 0, 0, 0, 8, 0, 0, 3, 12, 0, 0, 0, 3, 1, 24, 0, 24, 0, 0, 0, 0, 0, 0, 0,
      0, 0, 0, 0, 1, 0, 0, 0, 7, 0, 0, 0, 2, 1, 36, 0, 56, 0, 0, 0, 0, 0, 0, 0, 0, 0, 0,
      0, 1, 0, 0, 0, 8, 0, 0, 0, 20, 0, 20, 0, 1, 0, 0, 0, 0, 0, 0, 0, 1, 0, 0, 0, 9, 0,
      0, 0, 13, 0, 0, 0, 8, 0, 0, 3, 13, 0, 0, 0, 3, 1, 24, 0, 24, 0, 0, 0, 0, 0, 0, 0,
      0, 0, 0, 0, 1, 0, 0, 0, 8, 0, 0, 0, 3, 1, 24, 0, 24, 0, 0, 0, 0, 0, 0, 0, 0, 0, 0,
      0, 255, 255, 255, 255, 6, 0, 0, 0, 3, 1, 24, 0, 24, 0, 0, 0, 0, 0, 0, 0, 0, 0, 0,
      0, 1, 0, 0, 0, 5, 0, 0, 0, 3, 1, 24, 0, 24, 0, 0, 0, 0, 0, 0, 0, 0, 0, 0, 0, 255,
      255, 255, 255, 4, 0, 0, 0, 3, 1, 24, 0, 24, 0, 0, 0, 0, 0, 0, 0, 0, 0, 0, 0, 255,
      255, 255, 255, 0, 0, 0, 0, 1, 1, 24, 0, 24, 0, 0, 0, 0, 0, 0, 0, 0, 0, 0, 0, 2, 0,
      0, 0, 1, 0, 0, 0]"
  unfolding build_manifest_def manifest_chunks_eval
  by code_simp

text \<open>
  Claim C1.  \<open>build_manifest\<close> returns the 8-byte outer header followed by the 16
  chunks of the list \<open>manifest\<close>.  The outer chunk declares the header size 8 and a total
  size equal to the length of the whole buffer, which is 8 plus the summed sizes of the
  nested chunks.  Every nested chunk (string pool, resource map, namespace start and end,
  element starts and ends) declares a total size equal to its own length, which is its
  declared header size plus the length of what follows the header.  Re-walking the
  buffer after the outer header by the declared sizes gives back exactly these chunks.
\<close>

theorem document_chunk_sizes:
  "\<exists>chunks doc.
     manifest_chunks = Inr chunks \<and> build_manifest = Inr doc \<and>
     length chunks = 16 \<and>
     doc = take 8 doc @ concat chunks \<and>
     u16_at doc 0 = RES_XML_TYPE \<and> u16_at doc 2 = 8 \<and>
     u32_at doc 4 = int (length doc) \<and>
     u32_at doc 4 = 8 + sum_list (map (\<lambda>c. int (length c)) chunks) \<and>
     list_all (\<lambda>c. u32_at c 4 = int (length c) \<and>
                    u32_at c 4 = u16_at c 2 + int (length (drop (nat (u16_at c 2)) c))) chunks \<and>
     split_chunks (drop 8 doc) = Some chunks"
proof -
  define chunks where "chunks = projr manifest_chunks"
  define doc where "doc = projr build_manifest"
  have mc: "manifest_chunks = Inr chunks"
    unfolding chunks_def manifest_chunks_eval by simp
  have bm: "build_manifest = Inr doc"
    unfolding doc_def build_manifest_def manifest_chunks_eval by code_simp
  have "length chunks = 16 \<and>
     doc = take 8 doc @ concat chunks \<and>
     u16_at doc 0 = RES_XML_TYPE \<and> u16_at doc 2 = 8 \<and>
     u32_at doc 4 = int (length doc) \<and>
     u32_at doc 4 = 8 + sum_list (map (\<lambda>c. int (length c)) chunks) \<and>
     list_all (\<lambda>c. u32_at c 4 = int (length c) \<and>
                    u32_at c 4 = u16_at c 2 + int (length (drop (nat (u16_at c 2)) c))) chunks \<and>
     split_chunks (drop 8 doc) = Some chunks"
    unfolding chunks_def doc_def build_manifest_def manifest_chunks_eval by code_simp
  then show ?thesis by (intro exI [of _ chunks] exI [of _ doc] conjI mc bm) simp_all
qed

text \<open>
  Claim C7.  \<open>build_manifest\<close> returns a buffer that is an outer header of type
  \<open>RES_XML_TYPE\<close> followed by the chunks of the list \<open>manifest\<close> and nothing else.
  Re-walked after the outer header by the declared sizes and read back chunk by chunk,
  the buffer holds, in this order: the string pool (14 strings), the resource map,
  namespace start (prefix 2 \<open>android\<close>, URI 1), start of \<open>manifest\<close> (string 0) with the
  attribute \<open>package\<close> (string 3), start of \<open>application\<close> (4), start of \<open>activity\<close> (5)
  with the namespaced attribute \<open>name\<close> (9), start of \<open>intent-filter\<close> (6), start and
  end of \<open>action\<close> (7) with the namespaced attribute \<open>name\<close>, start and end of
  \<open>category\<close> (8) with the namespaced attribute \<open>name\<close>, end of \<open>intent-filter\<close>, of
  \<open>activity\<close>, of \<open>application\<close>, of \<open>manifest\<close>, and namespace end.  The pool strings,
  read from the pool chunk of the buffer, are the strings of the literal list in order,
  which fixes the meaning of the indices.  Every element start in the buffer is followed
  by exactly one element end with the same namespace and name indices, and the starts and
  ends are balanced as a stack.
\<close>

theorem document_event_order:
  "\<exists>doc chunks.
     build_manifest = Inr doc \<and> manifest_chunks = Inr chunks \<and>
     u16_at doc 0 = RES_XML_TYPE \<and> u32_at doc 4 = int (length doc) \<and>
     split_chunks (drop 8 doc) = Some chunks \<and>
     doc = take 8 doc @ concat chunks \<and>
     map parse_chunk chunks =
       [StringPool 14,
        ResourceMap [0x01010003],
        StartNamespace 2 1,
        StartElement None 0 [(None, 3, Some 10, (DATA_TYPE_STRING, 10))],
        StartElement None 4 [],
        StartElement (Some 1) 5 [(Some 1, 9, Some 11, (DATA_TYPE_STRING, 11))],
        StartElement None 6 [],
        StartElement (Some 1) 7 [(Some 1, 9, Some 12, (DATA_TYPE_STRING, 12))],
        EndElement (Some 1) 7,
        StartElement (Some 1) 8 [(Some 1, 9, Some 13, (DATA_TYPE_STRING, 13))],
        EndElement (Some 1) 8,
        EndElement None 6,
        EndElement (Some 1) 5,
        EndElement None 4,
        EndElement None 0,
        EndNamespace 2 1] \<and>
     map (\<lambda>i. map_option Inr (pool_string (hd chunks) i)) [0 ..< 14] =
       map (\<lambda>t. Some (str_encode_utf8 t)) manifest_strings \<and>
     well_nested [] (map parse_chunk chunks) \<and>
     one_end_each (map parse_chunk chunks)"
proof -
  define doc where "doc = projr build_manifest"
  define chunks where "chunks = projr manifest_chunks"
  have bm: "build_manifest = Inr doc"
    unfolding doc_def build_manifest_eval by simp
  have mc: "manifest_chunks = Inr chunks"
    unfolding chunks_def manifest_chunks_eval by simp
  have "u16_at doc 0 = RES_XML_TYPE \<and> u32_at doc 4 = int (length doc) \<and>
     split_chunks (drop 8 doc) = Some chunks \<and>
     doc = take 8 doc @ concat chunks \<and>
     map parse_chunk chunks =
       [StringPool 14,
        ResourceMap [0x01010003],
        StartNamespace 2 1,
        StartElement None 0 [(None, 3, Some 10, (DATA_TYPE_STRING, 10))],
        StartElement None 4 [],
        StartElement (Some 1) 5 [(Some 1, 9, Some 11, (DATA_TYPE_STRING, 11))],
        StartElement None 6 [],
        StartElement (Some 1) 7 [(Some 1, 9, Some 12, (DATA_TYPE_STRING, 12))],
        EndElement (Some 1) 7,
        StartElement (Some 1) 8 [(Some 1, 9, Some 13, (DATA_TYPE_STRING, 13))],
        EndElement (Some 1) 8,
        EndElement None 6,
        EndElement (Some 1) 5,
        EndElement None 4,
        EndElement None 0,
        EndNamespace 2 1] \<and>
     map (\<lambda>i. map_option Inr (pool_string (hd chunks) i)) [0 ..< 14] =
       map (\<lambda>t. Some (str_encode_utf8 t)) manifest_strings \<and>
     well_nested [] (map parse_chunk chunks) \<and>
     one_end_each (map parse_chunk chunks)"
    unfolding chunks_def doc_def build_manifest_eval manifest_chunks_eval by code_simp
  then show ?thesis by (intro exI [of _ doc] exI [of _ chunks] conjI bm mc) simp_all
qed

lemma build_resource_map_eq:
  "build_resource_map resource_ids =
     (if 8 + 4 * int (length resource_ids) < 2 ^ 32 \<and>
         (\<forall>v\<in>set resource_ids. 0 \<le> v \<and> v < 2 ^ 32)
      then Inr (le_bytes 2 0x0180 @ le_bytes 2 8 @
                le_bytes 4 (8 + 4 * int (length resource_ids)) @
                concat (map (le_bytes 4) resource_ids))
      else Inl StructError)"
  by (simp add: build_resource_map_def Let_def format_constants struct_pack_HHI
      append_u32s_eq del: struct_pack.simps le_bytes.simps)

lemma namespace_chunk_eq:
  "namespace_chunk chunk_type prefix_index uri_index =
     (if 0 \<le> chunk_type \<and> chunk_type < 2 ^ 16 \<and>
         0 \<le> prefix_index \<and> prefix_index < 2 ^ 32 \<and>
         0 \<le> uri_index \<and> uri_index < 2 ^ 32
      then Inr (le_bytes 2 chunk_type @ le_bytes 2 24 @ le_bytes 4 24 @
                le_bytes 4 0 @ le_bytes 4 0 @
                le_bytes 4 prefix_index @ le_bytes 4 uri_index)
      else Inl StructError)"
  by (simp add: namespace_chunk_def Let_def struct_pack_HHI struct_pack_II
      del: struct_pack.simps le_bytes.simps)

lemma string_pool_size:
  assumes "build_string_pool strings = Inr (c, indexes)"
  shows "4 dvd length c \<and> u32_at c 4 = int (length c)"
proof -
  obtain es where es: "list_all2 (\<lambda>t e. spec_pool_entry t = Inr e) strings es"
    and sz: "28 + 4 * int (length strings) + int (length (pad4 (concat es))) < 2 ^ 32"
    and c: "c = spec_pool_chunk (length strings) es"
    using assms build_string_pool_Inr by blast
  have len: "length es = length strings"
    using es by (simp add: list_all2_lengthD)
  have l: "length c = 28 + 4 * length strings + length (pad4 (concat es))"
    by (simp add: c spec_pool_chunk_length len)
  have "4 dvd length (pad4 (concat es))"
    using length_pad4_mod [of "concat es"] by (simp add: dvd_eq_mod_eq_0)
  then have "4 dvd length c" unfolding l by simp
  moreover have "u32_at c 4 = int (length c)"
    using spec_pool_chunk_header(3) [OF sz] by (simp add: c [symmetric] l)
  ultimately show ?thesis by simp
qed

lemma resource_map_size:
  assumes "build_resource_map resource_ids = Inr c"
  shows "4 dvd length c \<and> u32_at c 4 = int (length c)"
proof -
  have ok: "8 + 4 * int (length resource_ids) < 2 ^ 32"
    and c: "c = le_bytes 2 0x0180 @ le_bytes 2 8 @
                le_bytes 4 (8 + 4 * int (length resource_ids)) @
                concat (map (le_bytes 4) resource_ids)"
    using assms by (simp_all add: build_resource_map_eq split: if_splits)
  have l: "length c = 4 * (2 + length resource_ids)" by (simp add: c)
  then have "4 dvd length c" by simp
  moreover have "u32_at c 4 = int (length c)"
    using ok unfolding l by (simp add: c u32_at_def del: le_bytes.simps)
  ultimately show ?thesis by simp
qed

lemma namespace_chunk_size:
  assumes "namespace_chunk chunk_type prefix_index uri_index = Inr c"
  shows "4 dvd length c \<and> u32_at c 4 = int (length c)"
proof -
  have c: "c = le_bytes 2 chunk_type @ le_bytes 2 24 @ le_bytes 4 24 @
                le_bytes 4 0 @ le_bytes 4 0 @
                le_bytes 4 prefix_index @ le_bytes 4 uri_index"
    using assms by (simp add: namespace_chunk_eq split: if_splits)
  show ?thesis by (simp add: c u32_at_def del: le_bytes.simps)
qed

lemma start_element_size:
  assumes "start_element_chunk ns_index name_index attributes = Inr c"
  shows "4 dvd length c \<and> u32_at c 4 = int (length c)"
proof -
  have ok: "start_element_in_range ns_index name_index attributes"
    and c: "c = spec_start_element ns_index name_index attributes"
    using assms by (simp_all add: start_element_chunk_eq split: if_splits)
  note h = start_element_header [OF ok, folded c]
  have "length c = 4 * (9 + 5 * length attributes)" using h(1) by simp
  then have "4 dvd length c" by simp
  then show ?thesis using h(1) h(4) by simp
qed

lemma end_element_size:
  assumes "end_element_chunk ns_index name_index = Inr c"
  shows "4 dvd length c \<and> u32_at c 4 = int (length c)"
proof -
  have ok: "0 \<le> or_sentinel ns_index \<and> or_sentinel ns_index < 2 ^ 32 \<and>
           0 \<le> name_index \<and> name_index < 2 ^ 32"
    and c: "c = spec_end_element ns_index name_index"
    using assms by (simp_all add: end_element_chunk_eq split: if_splits)
  note h = end_element_header [OF ok, folded c]
  show ?thesis using h(1) h(4) by simp
qed

text \<open>
  Claim C10.  Every chunk a builder returns, for any arguments, has a length that is a
  multiple of 4 and declares that length as its total size; for the string pool this is
  due to the padding loop, whose result always has a length divisible by 4.  In the
  document every one of the 16 chunks therefore begins at an offset divisible by 4, and
  the length of the document, which its outer header declares, is a multiple of 4.
\<close>

theorem chunk_sizes_aligned:
  "(build_string_pool strings = Inr (c1, indexes) \<longrightarrow>
      4 dvd length c1 \<and> u32_at c1 4 = int (length c1)) \<and>
   4 dvd length (pad4 body) \<and>
   (build_resource_map resource_ids = Inr c2 \<longrightarrow>
      4 dvd length c2 \<and> u32_at c2 4 = int (length c2)) \<and>
   (namespace_chunk chunk_type prefix_index uri_index = Inr c3 \<longrightarrow>
      4 dvd length c3 \<and> u32_at c3 4 = int (length c3)) \<and>
   (start_element_chunk ns_index name_index attributes = Inr c4 \<longrightarrow>
      4 dvd length c4 \<and> u32_at c4 4 = int (length c4)) \<and>
   (end_element_chunk ns_index name_index = Inr c5 \<longrightarrow>
      4 dvd length c5 \<and> u32_at c5 4 = int (length c5)) \<and>
   (\<exists>chunks doc.
      manifest_chunks = Inr chunks \<and> build_manifest = Inr doc \<and>
      4 dvd length doc \<and> u32_at doc 4 = int (length doc) \<and>
      list_all (\<lambda>i. 4 dvd (8 + length (concat (take i chunks))) \<and>
                     take (length (chunks ! i))
                       (drop (8 + length (concat (take i chunks))) doc) = chunks ! i)
        [0 ..< length chunks])"
proof (intro conjI impI)
  show "4 dvd length (pad4 body)"
    using length_pad4_mod [of body] by (simp add: dvd_eq_mod_eq_0)
next
  define chunks where "chunks = projr manifest_chunks"
  define doc where "doc = projr build_manifest"
  have mc: "manifest_chunks = Inr chunks"
    unfolding chunks_def manifest_chunks_eval by simp
  have bm: "build_manifest = Inr doc"
    unfolding doc_def build_manifest_def manifest_chunks_eval by code_simp
  have "4 dvd length doc \<and> u32_at doc 4 = int (length doc) \<and>
      list_all (\<lambda>i. 4 dvd (8 + length (concat (take i chunks))) \<and>
                     take (length (chunks ! i))
                       (drop (8 + length (concat (take i chunks))) doc) = chunks ! i)
        [0 ..< length chunks]"
    unfolding chunks_def doc_def build_manifest_def manifest_chunks_eval by code_simp
  then show "\<exists>chunks doc.
      manifest_chunks = Inr chunks \<and> build_manifest = Inr doc \<and>
      4 dvd length doc \<and> u32_at doc 4 = int (length doc) \<and>
      list_all (\<lambda>i. 4 dvd (8 + length (concat (take i chunks))) \<and>
                     take (length (chunks ! i))
                       (drop (8 + length (concat (take i chunks))) doc) = chunks ! i)
        [0 ..< length chunks]"
    by (intro exI [of _ chunks] exI [of _ doc] conjI mc bm) simp_all
qed (simp_all add: string_pool_size resource_map_size namespace_chunk_size
      start_element_size end_element_size)

theorem chunk_sizes_aligned_witness:
  "(\<exists>c. build_resource_map [ANDROID_NAME_RESOURCE_ID] = Inr c \<and> length c = 12 \<and>
        4 dvd length c \<and> u32_at c 4 = 12) \<and>
   (\<exists>c. start_element_chunk None 4 [] = Inr c \<and> length c = 36 \<and>
        4 dvd length c \<and> u32_at c 4 = 36)"
proof -
  obtain c2 where c2: "build_resource_map [ANDROID_NAME_RESOURCE_ID] = Inr c2" "length c2 = 12"
    by (simp add: build_resource_map_eq ANDROID_NAME_RESOURCE_ID_def del: le_bytes.simps)
  obtain c4 where c4: "start_element_chunk None 4 [] = Inr c4" "length c4 = 36"
    by (simp add: start_element_chunk_eq start_element_in_range_def or_sentinel_def
        spec_start_element_def del: le_bytes.simps)
  note a = chunk_sizes_aligned [of _ _ _ _ "[ANDROID_NAME_RESOURCE_ID]" c2 _ _ _ _
      None 4 "[]" c4]
  have "4 dvd length c2 \<and> u32_at c2 4 = int (length c2)" using a c2(1) by blast
  moreover have "4 dvd length c4 \<and> u32_at c4 4 = int (length c4)" using a c4(1) by blast
  ultimately show ?thesis using c2 c4 by auto
qed

text \<open>
  Claim C2 fails on the code.  The document's resource map has the single entry
  \<open>0x01010003\<close> at position 0, and pool string 0 is \<open>manifest\<close>; the attribute name
  \<open>name\<close> is pool string 9, which is the name index every \<open>name\<close> attribute record carries
  and which has no entry in the resource map.
\<close>

theorem resource_map_misaligned:
  "\<exists>pool indexes chunks.
     build_string_pool manifest_strings = Inr (pool, indexes) \<and>
     manifest_chunks = Inr chunks \<and>
     chunks ! 0 = pool \<and>
     parse_chunk (chunks ! 1) = ResourceMap [ANDROID_NAME_RESOURCE_ID] \<and>
     map_option Inr (pool_string pool 0) = Some (str_encode_utf8 (lit ''manifest'')) \<and>
     map_option Inr (pool_string pool 9) = Some (str_encode_utf8 (lit ''name'')) \<and>
     indexes (lit ''manifest'') = Some 0 \<and>
     indexes (lit ''name'') = Some 9 \<and>
     parse_chunk (chunks ! 5) =
       StartElement (Some 1) 5 [(Some 1, 9, Some 11, (DATA_TYPE_STRING, 11))]"
proof -
  define pool where "pool = fst (projr (build_string_pool manifest_strings))"
  define indexes where "indexes = snd (projr (build_string_pool manifest_strings))"
  define chunks where "chunks = projr manifest_chunks"
  have mc: "manifest_chunks = Inr chunks"
    unfolding chunks_def manifest_chunks_eval by simp
  have "isl (build_string_pool manifest_strings) = False" by code_simp
  then have bp: "build_string_pool manifest_strings = Inr (pool, indexes)"
    unfolding pool_def indexes_def by (cases "build_string_pool manifest_strings") auto
  have p0: "chunks ! 0 = pool"
    unfolding chunks_def pool_def manifest_chunks_eval by code_simp
  have rest: "parse_chunk (chunks ! 1) = ResourceMap [ANDROID_NAME_RESOURCE_ID] \<and>
     map_option Inr (pool_string (chunks ! 0) 0) = Some (str_encode_utf8 (lit ''manifest'')) \<and>
     map_option Inr (pool_string (chunks ! 0) 9) = Some (str_encode_utf8 (lit ''name'')) \<and>
     parse_chunk (chunks ! 5) =
       StartElement (Some 1) 5 [(Some 1, 9, Some 11, (DATA_TYPE_STRING, 11))]"
    unfolding chunks_def manifest_chunks_eval by code_simp
  have ix: "indexes (lit ''manifest'') = Some 0 \<and> indexes (lit ''name'') = Some 9"
    unfolding indexes_def by code_simp
  show ?thesis
    using bp mc p0 rest ix
    by (intro exI [of _ pool] exI [of _ indexes] exI [of _ chunks]) simp
qed

end
